theory Spec2Isabelle
  imports Main "HOL-Library.Sublist"
begin

section \<open>Results emitted by a store (IRxStore, IRxStores)\<close>

text \<open>
  \<^verbatim>\<open>IRxStore<T, TError>\<close> is \<^verbatim>\<open>{ loading, value: undefined | T, error?: TError }\<close>.
  \<open>None\<close> stands for JavaScript's \<^verbatim>\<open>undefined\<close> (also for an absent key). The source tests
  values and errors for truthiness (\<^verbatim>\<open>||\<close>, \<^verbatim>\<open>? :\<close>, \<^verbatim>\<open>filter(Boolean)\<close>); since \<^verbatim>\<open>T\<close> and
  \<^verbatim>\<open>TError\<close> are type parameters of the class, the truthiness of their elements is a
  parameter of the model (\<open>tv\<close> for values, \<open>te\<close> for errors); \<^verbatim>\<open>undefined\<close> is falsy.
\<close>

record ('v, 'e) IRxStore =
  loading :: bool
  val :: "'v option"
  err :: "'e option"

record ('v, 'e) IRxStores =
  s_loading :: bool
  s_value :: "'v list"
  s_error :: "'e list"

definition truthy :: "('a \<Rightarrow> bool) \<Rightarrow> 'a option \<Rightarrow> bool" where
  "truthy t x = (case x of None \<Rightarrow> False | Some a \<Rightarrow> t a)"

text \<open>
  The function under \<^verbatim>\<open>pairwise()\<close> in \<^verbatim>\<open>RxStore.init\<close>:
  \<^verbatim>\<open>
  map(([previousValue, newValue]) => ({
    loading: newValue.loading,
    value: (newValue && newValue.value) || (previousValue && previousValue.value),
    ...(newValue.error ? { error: newValue.error } : undefined) }))
  \<close>
  \<open>previousValue\<close> is the previous element of the source of \<^verbatim>\<open>pairwise\<close>
  (\<^verbatim>\<open>undefined\<close> at the start, from \<^verbatim>\<open>startWith(undefined)\<close>), not the previous merged result.
\<close>

definition mergePair ::
  "('v \<Rightarrow> bool) \<Rightarrow> ('e \<Rightarrow> bool) \<Rightarrow> ('v, 'e) IRxStore option \<Rightarrow> ('v, 'e) IRxStore \<Rightarrow> ('v, 'e) IRxStore" where
  "mergePair tv te previousValue newValue =
     \<lparr> loading = loading newValue,
       val = (if truthy tv (val newValue) then val newValue
              else (case previousValue of None \<Rightarrow> None | Some p \<Rightarrow> val p)),
       err = (if truthy te (err newValue) then err newValue else None) \<rparr>"

section \<open>getStores: the aggregate view\<close>

text \<open>\<^verbatim>\<open>xs.filter(Boolean)\<close>: the truthy elements, in order.\<close>

fun filterBoolean :: "('a \<Rightarrow> bool) \<Rightarrow> 'a option list \<Rightarrow> 'a list" where
  "filterBoolean t [] = []"
| "filterBoolean t (None # xs) = filterBoolean t xs"
| "filterBoolean t (Some a # xs) = (if t a then a # filterBoolean t xs else filterBoolean t xs)"

text \<open>The function under \<^verbatim>\<open>map\<close> in \<^verbatim>\<open>getStores\<close>, applied to the array \<^verbatim>\<open>storeOutput\<close>.\<close>

definition combine ::
  "('v \<Rightarrow> bool) \<Rightarrow> ('e \<Rightarrow> bool) \<Rightarrow> ('v, 'e) IRxStore list \<Rightarrow> ('v, 'e) IRxStores" where
  "combine tv te storeOutput =
     \<lparr> s_loading = list_ex (\<lambda>l. l = True) (map loading storeOutput),
       s_value = filterBoolean tv (map val storeOutput),
       s_error = filterBoolean te (map err storeOutput) \<rparr>"

text \<open>
  \<^verbatim>\<open>combineLatest\<close> over \<open>n\<close> sources: the input is the interleaved sequence of emissions
  \<open>(j, x)\<close> (source \<open>j\<close> emitted \<open>x\<close>); \<open>latest\<close> is the last value of each source so far.
  Nothing is emitted before every source has emitted; from then on each emission of a
  source produces the array of the latest values.
\<close>

fun combineLatest :: "'a option list \<Rightarrow> (nat \<times> 'a) list \<Rightarrow> 'a list list" where
  "combineLatest latest [] = []"
| "combineLatest latest ((j, x) # ups) =
     (let latest' = latest[j := Some x]
      in (case those latest' of None \<Rightarrow> [] | Some values \<Rightarrow> [values])
         @ combineLatest latest' ups)"

text \<open>
  \<^verbatim>\<open>distinctUntilKeyChanged("loading")\<close>: an element passes when its \<^verbatim>\<open>loading\<close> differs from
  the \<^verbatim>\<open>loading\<close> of the last element that passed (\<open>lastKey\<close>); the first always passes.
\<close>

fun distinctUntilKeyChanged_loading ::
  "bool option \<Rightarrow> ('v, 'e) IRxStores list \<Rightarrow> ('v, 'e) IRxStores list" where
  "distinctUntilKeyChanged_loading lastKey [] = []"
| "distinctUntilKeyChanged_loading lastKey (x # xs) =
     (if lastKey = Some (s_loading x) then distinctUntilKeyChanged_loading lastKey xs
      else x # distinctUntilKeyChanged_loading (Some (s_loading x)) xs)"

text \<open>
  \<^verbatim>\<open>getStores(params)\<close> as a function from the emissions of the \<open>n = params.length\<close> streams
  returned by \<^verbatim>\<open>_getStore\<close> to the emissions of the result. \<open>combined\<close> is the stream before
  \<^verbatim>\<open>distinctUntilKeyChanged\<close>.
\<close>

definition combined ::
  "('v \<Rightarrow> bool) \<Rightarrow> ('e \<Rightarrow> bool) \<Rightarrow> nat \<Rightarrow> (nat \<times> ('v, 'e) IRxStore) list \<Rightarrow> ('v, 'e) IRxStores list" where
  "combined tv te n ups = map (combine tv te) (combineLatest (replicate n None) ups)"

definition getStores ::
  "('v \<Rightarrow> bool) \<Rightarrow> ('e \<Rightarrow> bool) \<Rightarrow> nat \<Rightarrow> (nat \<times> ('v, 'e) IRxStore) list \<Rightarrow> ('v, 'e) IRxStores list" where
  "getStores tv te n ups =
     (if n = 0 then [\<lparr> s_loading = False, s_value = [], s_error = [] \<rparr>]
      else distinctUntilKeyChanged_loading None (combined tv te n ups))"

section \<open>RxStore: the keyed cache\<close>

text \<open>
  The constructor's arguments. \<^verbatim>\<open>T\<close>, \<^verbatim>\<open>Params\<close>, \<^verbatim>\<open>Extra\<close>, \<^verbatim>\<open>TError\<close> are the type variables
  \<open>'v\<close>, \<open>'p\<close>, \<open>'x\<close>, \<open>'e\<close>; \<open>'r\<close> is the type of the raw errors (\<^verbatim>\<open>Error\<close>) a fetcher fails
  with. The fetcher itself is the environment: the store logs each call and each
  unsubscription (\<open>fetcherLog\<close>), and what the fetcher's stream does arrives as an event.
\<close>

record ('p, 'v, 'e, 'r) config =
  paramHasher :: "'p \<Rightarrow> string"
  errorParserLogger :: "'r \<Rightarrow> 'e"
  deleteFromCacheTimeMS :: "nat option"
  truthyValue :: "'v \<Rightarrow> bool"
  truthyError :: "'e \<Rightarrow> bool"

text \<open>\<^verbatim>\<open>this.deleteFromCacheTimeMS ? new SubscriberMonitor(...) : observable\<close>: 0 is falsy.\<close>

definition monitored :: "('p, 'v, 'e, 'r) config \<Rightarrow> bool" where
  "monitored cfg = (case deleteFromCacheTimeMS cfg of None \<Rightarrow> False | Some ms \<Rightarrow> ms \<noteq> 0)"

datatype js_error = TypeError

text \<open>
  One object per call of \<^verbatim>\<open>init\<close> that builds an entry: the fields of \<^verbatim>\<open>this.store[key]\<close>,
  the variables the closures of \<^verbatim>\<open>init\<close> capture (\<open>e_key\<close>, \<open>params\<close>, \<open>e_extra\<close>) and the state
  of the operators of its pipeline:
  \<^item> \<open>updateValueRS\<close>: the buffer of the \<^verbatim>\<open>ReplaySubject(1)\<close>, the last value passed to \<^verbatim>\<open>next\<close>
    (\<open>None\<close> is \<^verbatim>\<open>undefined\<close>; \<^verbatim>\<open>init\<close> itself calls \<^verbatim>\<open>next(undefined)\<close>);
  \<^item> \<open>connected\<close>: \<^verbatim>\<open>shareReplay(1)\<close> has subscribed to its source. Without \<^verbatim>\<open>refCount\<close> it
    keeps that subscription when its last subscriber leaves, and the source never
    completes, so the flag is never reset;
  \<^item> \<open>inner\<close>: the live subscription to the fetcher's stream under \<^verbatim>\<open>switchMap\<close>;
  \<^item> \<open>previous\<close>: the last element \<^verbatim>\<open>pairwise\<close> has seen;
  \<^item> \<open>replay\<close>: the buffer of \<^verbatim>\<open>shareReplay(1)\<close>; \<open>observers\<close>: its subscribers;
  \<^item> \<open>counter\<close>: the field of the \<^verbatim>\<open>SubscriberMonitor\<close>.
  The stream the entry's \<^verbatim>\<open>observable\<close> field holds is identified with the entry's
  address: a consumer can keep it and subscribe to it when the entry is no longer in
  \<^verbatim>\<open>this.store\<close>.
\<close>

record ('p, 'v, 'e, 'x) entry =
  e_key :: string
  params :: 'p
  e_extra :: "'x option"
  lastFetchFailed :: bool
  clearFromStorageTimer :: "nat option"
  updateValueRS :: "('v, 'e) IRxStore option"
  connected :: bool
  inner :: "nat option"
  previous :: "('v, 'e) IRxStore option"
  replay :: "('v, 'e) IRxStore option"
  observers :: "nat list"
  counter :: int

text \<open>
  A live subscription to a stream the fetcher returned: the pipeline it feeds and the
  entry \<^verbatim>\<open>const store = this.store[key]\<close> found when \<^verbatim>\<open>networkFetchOb\<close> was subscribed.
\<close>

record fetch_sub =
  f_entry :: nat
  f_store :: "nat option"

datatype ('p, 'x) fetcher_event = Called nat 'p "'x option" | Cancelled nat

text \<open>
  \<open>store\<close> is \<^verbatim>\<open>this.store\<close>, keys in insertion order (the order of \<^verbatim>\<open>Object.keys\<close> for keys
  that are not array indices), each with the address of its entry; \<open>heap\<close> holds the entry
  objects; \<open>timers\<close> the pending \<^verbatim>\<open>setTimeout\<close> handles, each with the \<^verbatim>\<open>key\<close> its callback
  deletes; \<open>subscriptions\<close> maps a live subscriber to the stream it subscribed to;
  \<open>received\<close> is what each subscriber's \<^verbatim>\<open>next\<close> callback has been called with.
\<close>

record ('p, 'v, 'e, 'x) rxstore =
  store :: "(string \<times> nat) list"
  heap :: "nat \<Rightarrow> ('p, 'v, 'e, 'x) entry option"
  fetches :: "nat \<Rightarrow> fetch_sub option"
  timers :: "(nat \<times> string) list"
  subscriptions :: "nat \<Rightarrow> nat option"
  received :: "nat \<Rightarrow> ('v, 'e) IRxStore list"
  fetcherLog :: "('p, 'x) fetcher_event list"
  nextId :: nat

definition emptyStore :: "('p, 'v, 'e, 'x) rxstore" where
  "emptyStore =
     \<lparr> store = [], heap = (\<lambda>_. None), fetches = (\<lambda>_. None), timers = [],
       subscriptions = (\<lambda>_. None), received = (\<lambda>_. []), fetcherLog = [], nextId = 0 \<rparr>"

text \<open>
  An element \<open>x\<close> leaves \<^verbatim>\<open>switchMap\<close> in the pipeline of entry \<open>i\<close>: \<^verbatim>\<open>pairwise\<close> and \<^verbatim>\<open>map\<close>
  merge it with the previous one, \<^verbatim>\<open>shareReplay(1)\<close> stores the result and passes it to
  every subscriber.
\<close>

definition emit ::
  "('p, 'v, 'e, 'r) config \<Rightarrow> nat \<Rightarrow> ('v, 'e) IRxStore \<Rightarrow> ('p, 'v, 'e, 'x) rxstore \<Rightarrow> ('p, 'v, 'e, 'x) rxstore" where
  "emit cfg i x s =
     (case heap s i of
        None \<Rightarrow> s
      | Some e \<Rightarrow>
          let m = mergePair (truthyValue cfg) (truthyError cfg) (previous e) x
          in s\<lparr> heap := (heap s)(i \<mapsto> e\<lparr> previous := Some x, replay := Some m \<rparr>),
                received := (\<lambda>n. if n \<in> set (observers e) then received s n @ [m] else received s n) \<rparr>)"

text \<open>\<^verbatim>\<open>switchMap\<close> unsubscribes from its inner stream: a live fetcher stream is cancelled.\<close>

definition cancelInner :: "nat \<Rightarrow> ('p, 'v, 'e, 'x) rxstore \<Rightarrow> ('p, 'v, 'e, 'x) rxstore" where
  "cancelInner i s =
     (case heap s i of
        None \<Rightarrow> s
      | Some e \<Rightarrow>
          (case inner e of
             None \<Rightarrow> s
           | Some f \<Rightarrow>
               s\<lparr> heap := (heap s)(i \<mapsto> e\<lparr> inner := None \<rparr>),
                  fetches := (fetches s)(f := None),
                  fetcherLog := fetcherLog s @ [Cancelled f] \<rparr>))"

text \<open>
  \<^verbatim>\<open>this.fetcher(params, extra)\<close> is called and the stream it returns subscribed to
  (\<^verbatim>\<open>flatMap\<close>); \<open>captured\<close> is the value of \<^verbatim>\<open>store\<close> in the enclosing function.
\<close>

definition callFetcher ::
  "nat \<Rightarrow> nat option \<Rightarrow> ('p, 'v, 'e, 'x) rxstore \<Rightarrow> ('p, 'v, 'e, 'x) rxstore" where
  "callFetcher i captured s =
     (case heap s i of
        None \<Rightarrow> s
      | Some e \<Rightarrow>
          let f = nextId s
          in s\<lparr> heap := (heap s)(i \<mapsto> e\<lparr> inner := Some f \<rparr>),
                fetches := (fetches s)(f \<mapsto> \<lparr> f_entry = i, f_store = captured \<rparr>),
                fetcherLog := fetcherLog s @ [Called f (params e) (e_extra e)],
                nextId := Suc f \<rparr>)"

text \<open>
  The subscriber function of \<^verbatim>\<open>networkFetchOb\<close>: read \<^verbatim>\<open>this.store[key]\<close>, emit
  \<^verbatim>\<open>{ loading: true, value: undefined }\<close>, then call the fetcher.
\<close>

definition networkFetchOb ::
  "('p, 'v, 'e, 'r) config \<Rightarrow> nat \<Rightarrow> ('p, 'v, 'e, 'x) rxstore \<Rightarrow> ('p, 'v, 'e, 'x) rxstore" where
  "networkFetchOb cfg i s =
     (case heap s i of
        None \<Rightarrow> s
      | Some e \<Rightarrow>
          callFetcher i (map_of (store s) (e_key e))
            (emit cfg i \<lparr> loading = True, val = None, err = None \<rparr> s))"

text \<open>
  \<^verbatim>\<open>switchMap((val) => val ? of(val) : networkFetchOb)\<close> receives \<open>x\<close> from \<^verbatim>\<open>updateValueRS\<close>.
\<close>

definition switchMapNext ::
  "('p, 'v, 'e, 'r) config \<Rightarrow> nat \<Rightarrow> ('v, 'e) IRxStore option \<Rightarrow> ('p, 'v, 'e, 'x) rxstore \<Rightarrow> ('p, 'v, 'e, 'x) rxstore" where
  "switchMapNext cfg i x s =
     (let s1 = cancelInner i s
      in case x of Some v \<Rightarrow> emit cfg i v s1 | None \<Rightarrow> networkFetchOb cfg i s1)"

text \<open>\<^verbatim>\<open>updateValueRS.next(x)\<close> on entry \<open>i\<close>.\<close>

definition rsNext ::
  "('p, 'v, 'e, 'r) config \<Rightarrow> nat \<Rightarrow> ('v, 'e) IRxStore option \<Rightarrow> ('p, 'v, 'e, 'x) rxstore \<Rightarrow> ('p, 'v, 'e, 'x) rxstore" where
  "rsNext cfg i x s =
     (case heap s i of
        None \<Rightarrow> s
      | Some e \<Rightarrow>
          let s1 = s\<lparr> heap := (heap s)(i \<mapsto> e\<lparr> updateValueRS := x \<rparr>) \<rparr>
          in if connected e then switchMapNext cfg i x s1 else s1)"

definition newEntry :: "string \<Rightarrow> 'p \<Rightarrow> 'x option \<Rightarrow> ('p, 'v, 'e, 'x) entry" where
  "newEntry key p x =
     \<lparr> e_key = key, params = p, e_extra = x, lastFetchFailed = False,
       clearFromStorageTimer = None, updateValueRS = None, connected = False, inner = None,
       previous = None, replay = None, observers = [], counter = 0 \<rparr>"

definition init ::
  "('p, 'v, 'e, 'r) config \<Rightarrow> 'p \<Rightarrow> 'x option \<Rightarrow> ('p, 'v, 'e, 'x) rxstore \<Rightarrow> ('p, 'v, 'e, 'x) rxstore" where
  "init cfg p x s =
     (let key = paramHasher cfg p
      in (case map_of (store s) key of
            Some _ \<Rightarrow> s
          | None \<Rightarrow>
              (let i = nextId s
               in s\<lparr> store := store s @ [(key, i)],
                     heap := (heap s)(i \<mapsto> newEntry key p x),
                     nextId := Suc i \<rparr>)))"

text \<open>
  \<^verbatim>\<open>_getStore(params, { force, extra })\<close>, which \<^verbatim>\<open>getStore\<close> calls: the result is the address
  of the stream returned and the new state.
\<close>

definition getStore ::
  "('p, 'v, 'e, 'r) config \<Rightarrow> 'p \<Rightarrow> bool \<Rightarrow> 'x option \<Rightarrow> ('p, 'v, 'e, 'x) rxstore
     \<Rightarrow> js_error + (nat \<times> ('p, 'v, 'e, 'x) rxstore)" where
  "getStore cfg p force x s =
     (let s1 = init cfg p x s
      in case map_of (store s1) (paramHasher cfg p) of
           None \<Rightarrow> Inl TypeError
         | Some i \<Rightarrow>
             (case heap s1 i of
                None \<Rightarrow> Inl TypeError
              | Some e \<Rightarrow>
                  Inr (i, if force \<or> lastFetchFailed e then rsNext cfg i None s1 else s1)))"

definition updateStoreValue ::
  "('p, 'v, 'e, 'r) config \<Rightarrow> 'p \<Rightarrow> 'v \<Rightarrow> ('p, 'v, 'e, 'x) rxstore \<Rightarrow> js_error + ('p, 'v, 'e, 'x) rxstore" where
  "updateStoreValue cfg p v s =
     (let s1 = init cfg p None s
      in case map_of (store s1) (paramHasher cfg p) of
           None \<Rightarrow> Inl TypeError
         | Some i \<Rightarrow> Inr (rsNext cfg i (Some \<lparr> loading = False, val = Some v, err = None \<rparr>) s1))"

text \<open>
  \<^verbatim>\<open>expireKey\<close> is called with the keys of \<^verbatim>\<open>Object.keys(this.store)\<close> only, and nothing
  removes a key during the loop: the lookup finds the entry.
\<close>

definition expireKey ::
  "('p, 'v, 'e, 'r) config \<Rightarrow> string \<Rightarrow> ('p, 'v, 'e, 'x) rxstore \<Rightarrow> ('p, 'v, 'e, 'x) rxstore" where
  "expireKey cfg key s =
     (case map_of (store s) key of None \<Rightarrow> s | Some i \<Rightarrow> rsNext cfg i None s)"

definition expireAll ::
  "('p, 'v, 'e, 'r) config \<Rightarrow> ('p, 'v, 'e, 'x) rxstore \<Rightarrow> ('p, 'v, 'e, 'x) rxstore" where
  "expireAll cfg s = fold (expireKey cfg) (map fst (store s)) s"

definition expireWhere ::
  "('p, 'v, 'e, 'r) config \<Rightarrow> ('p \<Rightarrow> bool) \<Rightarrow> ('p, 'v, 'e, 'x) rxstore \<Rightarrow> ('p, 'v, 'e, 'x) rxstore" where
  "expireWhere cfg predicate s =
     fold (\<lambda>key s'.
             case map_of (store s') key of
               None \<Rightarrow> s'
             | Some i \<Rightarrow>
                 (case heap s' i of
                    None \<Rightarrow> s'
                  | Some e \<Rightarrow> if predicate (params e) then expireKey cfg key s' else s'))
          (map fst (store s)) s"

section \<open>Subscribers, the SubscriberMonitor and eviction\<close>

text \<open>
  Subscriber \<open>n\<close> subscribes to the \<^verbatim>\<open>shareReplay(1)\<close> stream of entry \<open>i\<close>. The first
  subscription connects the source: the \<^verbatim>\<open>ReplaySubject\<close> replays its buffer into
  \<^verbatim>\<open>switchMap\<close>. The new subscriber then receives the replay buffer, if there is one.
\<close>

definition shareReplaySubscribe ::
  "('p, 'v, 'e, 'r) config \<Rightarrow> nat \<Rightarrow> nat \<Rightarrow> ('p, 'v, 'e, 'x) rxstore \<Rightarrow> ('p, 'v, 'e, 'x) rxstore" where
  "shareReplaySubscribe cfg i n s =
     (case heap s i of
        None \<Rightarrow> s
      | Some e \<Rightarrow>
          let s1 = (if connected e then s
                    else switchMapNext cfg i (updateValueRS e)
                           (s\<lparr> heap := (heap s)(i \<mapsto> e\<lparr> connected := True \<rparr>) \<rparr>))
          in (case heap s1 i of
                None \<Rightarrow> s1
              | Some e1 \<Rightarrow>
                  s1\<lparr> heap := (heap s1)(i \<mapsto> e1\<lparr> observers := observers e1 @ [n] \<rparr>),
                      received := (received s1)(n := (case replay e1 of None \<Rightarrow> [] | Some m \<Rightarrow> [m])) \<rparr>))"

definition clearTimeout :: "nat option \<Rightarrow> ('p, 'v, 'e, 'x) rxstore \<Rightarrow> ('p, 'v, 'e, 'x) rxstore" where
  "clearTimeout handle s =
     (case handle of
        None \<Rightarrow> s
      | Some t \<Rightarrow> s\<lparr> timers := filter (\<lambda>(t', key). t' \<noteq> t) (timers s) \<rparr>)"

text \<open>
  The callbacks \<^verbatim>\<open>init\<close> gives the monitor read \<^verbatim>\<open>this.store[key]\<close> when they run:
  \<^verbatim>\<open>(_) => clearTimeout(this.store[key].clearFromStorageTimer)\<close> and
  \<^verbatim>\<open>(subCount) => { if (subCount === 0) { this.store[key].clearFromStorageTimer =
     setTimeout(() => { delete this.store[key]; }, this.deleteFromCacheTimeMS); } }\<close>.
  A property of \<^verbatim>\<open>undefined\<close> raises \<^verbatim>\<open>TypeError\<close>.
\<close>

definition onSubscribe :: "string \<Rightarrow> ('p, 'v, 'e, 'x) rxstore \<Rightarrow> js_error + ('p, 'v, 'e, 'x) rxstore" where
  "onSubscribe key s =
     (case map_of (store s) key of
        None \<Rightarrow> Inl TypeError
      | Some j \<Rightarrow>
          (case heap s j of
             None \<Rightarrow> Inl TypeError
           | Some ej \<Rightarrow> Inr (clearTimeout (clearFromStorageTimer ej) s)))"

definition onUnsubscribe ::
  "string \<Rightarrow> int \<Rightarrow> ('p, 'v, 'e, 'x) rxstore \<Rightarrow> js_error + ('p, 'v, 'e, 'x) rxstore" where
  "onUnsubscribe key subCount s =
     (if subCount = 0 then
        (case map_of (store s) key of
           None \<Rightarrow> Inl TypeError
         | Some j \<Rightarrow>
             (case heap s j of
                None \<Rightarrow> Inl TypeError
              | Some ej \<Rightarrow>
                  let t = nextId s
                  in Inr (s\<lparr> timers := timers s @ [(t, key)],
                            heap := (heap s)(j \<mapsto> ej\<lparr> clearFromStorageTimer := Some t \<rparr>),
                            nextId := Suc t \<rparr>)))
      else Inr s)"

text \<open>
  \<^verbatim>\<open>stream.subscribe()\<close> on the stream of entry \<open>i\<close>; the new subscriber is \<open>nextId s\<close>. With
  a monitor: \<^verbatim>\<open>observable.subscribe(subscriber); this.counter++; onSubscribe(this.counter)\<close>.
\<close>

definition subscribe ::
  "('p, 'v, 'e, 'r) config \<Rightarrow> nat \<Rightarrow> ('p, 'v, 'e, 'x) rxstore \<Rightarrow> js_error + ('p, 'v, 'e, 'x) rxstore" where
  "subscribe cfg i s =
     (case heap s i of
        None \<Rightarrow> Inr s
      | Some e \<Rightarrow>
          let n = nextId s;
              s1 = shareReplaySubscribe cfg i n
                     (s\<lparr> nextId := Suc n, subscriptions := (subscriptions s)(n \<mapsto> i) \<rparr>)
          in if monitored cfg then
               (case heap s1 i of
                  None \<Rightarrow> Inr s1
                | Some e1 \<Rightarrow>
                    onSubscribe (e_key e1)
                      (s1\<lparr> heap := (heap s1)(i \<mapsto> e1\<lparr> counter := counter e1 + 1 \<rparr>) \<rparr>))
             else Inr s1)"

text \<open>
  \<^verbatim>\<open>subscription.unsubscribe()\<close> of subscriber \<open>n\<close>. With a monitor:
  \<^verbatim>\<open>subscription.unsubscribe(); this.counter--; onUnsubscribe(this.counter)\<close>.
\<close>

definition unsubscribe ::
  "('p, 'v, 'e, 'r) config \<Rightarrow> nat \<Rightarrow> ('p, 'v, 'e, 'x) rxstore \<Rightarrow> js_error + ('p, 'v, 'e, 'x) rxstore" where
  "unsubscribe cfg n s =
     (case subscriptions s n of
        None \<Rightarrow> Inr s
      | Some i \<Rightarrow>
          (case heap s i of
             None \<Rightarrow> Inr s
           | Some e \<Rightarrow>
               let s1 = s\<lparr> heap := (heap s)(i \<mapsto> e\<lparr> observers := removeAll n (observers e) \<rparr>),
                           subscriptions := (subscriptions s)(n := None) \<rparr>
               in if monitored cfg then
                    onUnsubscribe (e_key e) (counter e - 1)
                      (s1\<lparr> heap := (heap s1)(i \<mapsto> e\<lparr> observers := removeAll n (observers e),
                                                         counter := counter e - 1 \<rparr>) \<rparr>)
                  else Inr s1))"

text \<open>The callback of timer \<open>t\<close> runs: \<^verbatim>\<open>delete this.store[key]\<close>.\<close>

definition timerFire :: "nat \<Rightarrow> ('p, 'v, 'e, 'x) rxstore \<Rightarrow> ('p, 'v, 'e, 'x) rxstore" where
  "timerFire t s =
     (case map_of (timers s) t of
        None \<Rightarrow> s
      | Some key \<Rightarrow>
          s\<lparr> store := filter (\<lambda>(k, i). k \<noteq> key) (store s),
             timers := filter (\<lambda>(t', k). t' \<noteq> t) (timers s) \<rparr>)"

section \<open>What the fetcher's stream does\<close>

text \<open>
  The stream of the live subscription \<open>f\<close> emits \<open>v\<close>:
  \<^verbatim>\<open>map((value) => ({ value, loading: false }))\<close>. The value is \<open>None\<close> when the stream emits
  \<^verbatim>\<open>undefined\<close>, as the batching store's does.
\<close>

definition fetchNext ::
  "('p, 'v, 'e, 'r) config \<Rightarrow> nat \<Rightarrow> 'v option \<Rightarrow> ('p, 'v, 'e, 'x) rxstore \<Rightarrow> ('p, 'v, 'e, 'x) rxstore" where
  "fetchNext cfg f v s =
     (case fetches s f of
        None \<Rightarrow> s
      | Some fs \<Rightarrow> emit cfg (f_entry fs) \<lparr> loading = False, val = v, err = None \<rparr> s)"

text \<open>The subscription \<open>f\<close> is over (its stream completed or failed).\<close>

definition endFetch :: "nat \<Rightarrow> ('p, 'v, 'e, 'x) rxstore \<Rightarrow> ('p, 'v, 'e, 'x) rxstore" where
  "endFetch f s =
     (case fetches s f of
        None \<Rightarrow> s
      | Some fs \<Rightarrow>
          (case heap s (f_entry fs) of
             None \<Rightarrow> s\<lparr> fetches := (fetches s)(f := None) \<rparr>
           | Some e \<Rightarrow>
               s\<lparr> fetches := (fetches s)(f := None),
                  heap := (heap s)(f_entry fs \<mapsto> e\<lparr> inner := None \<rparr>) \<rparr>))"

text \<open>
  The stream of \<open>f\<close> fails with \<open>raw\<close>:
  \<^verbatim>\<open>
  catchError((err: Error) => {
    const error = this.errorParserLogger(err);
    store.lastFetchFailed = true;
    return of({ value: undefined, loading: false, error }); })
  \<close>
\<close>

definition fetchError ::
  "('p, 'v, 'e, 'r) config \<Rightarrow> nat \<Rightarrow> 'r \<Rightarrow> ('p, 'v, 'e, 'x) rxstore \<Rightarrow> js_error + ('p, 'v, 'e, 'x) rxstore" where
  "fetchError cfg f raw s =
     (case fetches s f of
        None \<Rightarrow> Inr s
      | Some fs \<Rightarrow>
          let error = errorParserLogger cfg raw
          in (case f_store fs of
                None \<Rightarrow> Inl TypeError
              | Some j \<Rightarrow>
                  (case heap s j of
                     None \<Rightarrow> Inl TypeError
                   | Some ej \<Rightarrow>
                       Inr (endFetch f
                              (emit cfg (f_entry fs) \<lparr> loading = False, val = None, err = Some error \<rparr>
                                 (s\<lparr> heap := (heap s)(j \<mapsto> ej\<lparr> lastFetchFailed := True \<rparr>) \<rparr>))))))"

section \<open>Executions\<close>

datatype ('p, 'v, 'r, 'x) event =
    GetStore 'p bool "'x option"
  | Subscribe nat
  | Unsubscribe nat
  | UpdateStoreValue 'p 'v
  | ExpireAll
  | ExpireWhere "'p \<Rightarrow> bool"
  | FetchNext nat "'v option"
  | FetchError nat 'r
  | FetchComplete nat
  | TimerFire nat

definition step ::
  "('p, 'v, 'e, 'r) config \<Rightarrow> ('p, 'v, 'e, 'x) rxstore \<Rightarrow> ('p, 'v, 'r, 'x) event
     \<Rightarrow> js_error + ('p, 'v, 'e, 'x) rxstore" where
  "step cfg s ev =
     (case ev of
        GetStore p force x \<Rightarrow> map_sum id snd (getStore cfg p force x s)
      | Subscribe i \<Rightarrow> subscribe cfg i s
      | Unsubscribe n \<Rightarrow> unsubscribe cfg n s
      | UpdateStoreValue p v \<Rightarrow> updateStoreValue cfg p v s
      | ExpireAll \<Rightarrow> Inr (expireAll cfg s)
      | ExpireWhere predicate \<Rightarrow> Inr (expireWhere cfg predicate s)
      | FetchNext f v \<Rightarrow> Inr (fetchNext cfg f v s)
      | FetchError f raw \<Rightarrow> fetchError cfg f raw s
      | FetchComplete f \<Rightarrow> Inr (endFetch f s)
      | TimerFire t \<Rightarrow> Inr (timerFire t s))"

text \<open>An execution stops at the first call that raises.\<close>

fun run ::
  "('p, 'v, 'e, 'r) config \<Rightarrow> ('p, 'v, 'e, 'x) rxstore \<Rightarrow> ('p, 'v, 'r, 'x) event list
     \<Rightarrow> js_error + ('p, 'v, 'e, 'x) rxstore" where
  "run cfg s [] = Inr s"
| "run cfg s (ev # evs) = (case step cfg s ev of Inl e \<Rightarrow> Inl e | Inr s' \<Rightarrow> run cfg s' evs)"

section \<open>RxBatchingStore\<close>

record ('p, 'x) IRequestWithExtra =
  request :: 'p
  extra :: "'x option"

record ('v, 'p, 'r) IRxBatchSingleResponse =
  response :: "'v option"
  resp_request :: 'p
  resp_error :: "'r option"

text \<open>
  \<open>responsesOb\<close> is the shared stream of the results of one call of the collective fetch
  function: it is identified with the position of that call in the log of calls.
\<close>

record IBatchEvent =
  requestHashes :: "string set"
  responsesOb :: nat

text \<open>
  lodash's \<^verbatim>\<open>uniqBy(array, iteratee)\<close> walks the array and keeps an element when the value
  of the iteratee on it has not been seen; \<^verbatim>\<open>keyBy(array, iteratee)\<close> assigns each element
  to its key in turn, so the last element of a key stays.
\<close>

fun baseUniq :: "('a \<Rightarrow> 'k) \<Rightarrow> 'k list \<Rightarrow> 'a list \<Rightarrow> 'a list" where
  "baseUniq f seen [] = []"
| "baseUniq f seen (x # xs) =
     (if f x \<in> set seen then baseUniq f seen xs else x # baseUniq f (f x # seen) xs)"

definition uniqBy :: "'a list \<Rightarrow> ('a \<Rightarrow> 'k) \<Rightarrow> 'a list" where
  "uniqBy xs f = baseUniq f [] xs"

definition keyBy :: "'a list \<Rightarrow> ('a \<Rightarrow> 'k) \<Rightarrow> ('k \<Rightarrow> 'a option)" where
  "keyBy xs f = fold (\<lambda>x m. m(f x \<mapsto> x)) xs (\<lambda>_. None)"

text \<open>
  \<^verbatim>\<open>fetchBatch(reqs)\<close>. \<open>nodeObjectSorter\<close>, the hash of a request, is imported from a file that
  is not part of the sources at hand: it is a parameter. \<open>calls\<close> is the log of the calls of
  \<^verbatim>\<open>this.batchFetchingFunction\<close>, each with its argument.
\<close>

definition fetchBatch ::
  "('p \<Rightarrow> string) \<Rightarrow> ('p, 'x) IRequestWithExtra list \<Rightarrow> ('p, 'x) IRequestWithExtra list list
     \<Rightarrow> IBatchEvent \<times> ('p, 'x) IRequestWithExtra list list" where
  "fetchBatch nodeObjectSorter reqs calls =
     (let uniqRequests = uniqBy reqs (\<lambda>req. nodeObjectSorter (request req))
      in (\<lparr> requestHashes = set (map (\<lambda>req. nodeObjectSorter (request req)) reqs),
            responsesOb = length calls \<rparr>,
          calls @ [uniqRequests]))"

text \<open>
  The last \<^verbatim>\<open>switchMap\<close> of \<^verbatim>\<open>fetch\<close>, applied to \<^verbatim>\<open>responsesDictionary[requestHash]\<close>: the
  stream it returns is \<^verbatim>\<open>throwError(v.error)\<close>, \<^verbatim>\<open>of(v.response)\<close> or \<^verbatim>\<open>of(undefined)\<close>.
\<close>

datatype ('v, 'r) outcome = Emits "'v option" | Throws 'r

definition dispatch ::
  "(string \<Rightarrow> ('v, 'p, 'r) IRxBatchSingleResponse option) \<Rightarrow> string \<Rightarrow> ('v, 'r) outcome" where
  "dispatch responsesDictionary requestHash =
     (case responsesDictionary requestHash of
        Some v \<Rightarrow> (case resp_error v of Some e \<Rightarrow> Throws e | None \<Rightarrow> Emits (response v))
      | None \<Rightarrow> Emits None)"

text \<open>
  The constructor calls \<^verbatim>\<open>super((req, extra) => this.fetch(req, extra), errorParserLogger)\<close>:
  no \<^verbatim>\<open>deleteFromCacheTimeMS\<close>, and the default \<^verbatim>\<open>paramHasher\<close>, which is \<^verbatim>\<open>nodeObjectSorter\<close>.
\<close>

definition batchingConfig ::
  "('p \<Rightarrow> string) \<Rightarrow> ('r \<Rightarrow> 'e) \<Rightarrow> ('v \<Rightarrow> bool) \<Rightarrow> ('e \<Rightarrow> bool) \<Rightarrow> ('p, 'v, 'e, 'r) config" where
  "batchingConfig nodeObjectSorter parse tv te =
     \<lparr> paramHasher = nodeObjectSorter, errorParserLogger = parse, deleteFromCacheTimeMS = None,
       truthyValue = tv, truthyError = te \<rparr>"

text \<open>
  The state of a batching store: the store it extends and
  \<^item> \<open>waiting\<close>: the subscriptions to \<^verbatim>\<open>this.requests\<close> made by \<^verbatim>\<open>fetch\<close> and still waiting under
    \<^verbatim>\<open>first\<close>, each with its \<^verbatim>\<open>requestHash\<close>. \<^verbatim>\<open>share()\<close> keeps \<^verbatim>\<open>bufferTime\<close> subscribed to
    \<^verbatim>\<open>requestSubject\<close> exactly while this list is not empty;
  \<^item> \<open>buffered\<close>: the buffer of \<^verbatim>\<open>bufferTime\<close>;
  \<^item> \<open>attached\<close>: the subscriptions \<^verbatim>\<open>switchMap\<close> has moved to the \<^verbatim>\<open>responsesOb\<close> of a batch;
  \<^item> \<open>batchCalls\<close>: the calls of \<^verbatim>\<open>batchFetchingFunction\<close>.
  A subscription made by \<^verbatim>\<open>fetch\<close> is known by the number the store gave its caller's
  subscription to the stream \<^verbatim>\<open>fetch\<close> returned.
\<close>

record ('p, 'v, 'e, 'x) batching =
  rx :: "('p, 'v, 'e, 'x) rxstore"
  waiting :: "(nat \<times> string) list"
  buffered :: "('p, 'x) IRequestWithExtra list"
  attached :: "(nat \<times> string \<times> nat) list"
  batchCalls :: "('p, 'x) IRequestWithExtra list list"

definition emptyBatching :: "('p, 'v, 'e, 'x) batching" where
  "emptyBatching =
     \<lparr> rx = emptyStore, waiting = [], buffered = [], attached = [], batchCalls = [] \<rparr>"

text \<open>
  What the store does to the fetcher reaches \<^verbatim>\<open>fetch\<close>. A call subscribes to
  \<^verbatim>\<open>this.requests\<close> and then emits \<^verbatim>\<open>extra ? { request, extra } : { request }\<close> on
  \<^verbatim>\<open>requestSubject\<close>; an unsubscription leaves \<^verbatim>\<open>this.requests\<close> or the batch it was moved to,
  and \<^verbatim>\<open>bufferTime\<close> loses its buffer when \<^verbatim>\<open>share()\<close> has no subscriber left. \<open>tx\<close> is the
  truthiness of the values of \<^verbatim>\<open>Extra\<close>.
\<close>

definition fetch ::
  "('p \<Rightarrow> string) \<Rightarrow> ('x \<Rightarrow> bool) \<Rightarrow> ('p, 'x) fetcher_event \<Rightarrow> ('p, 'v, 'e, 'x) batching
     \<Rightarrow> ('p, 'v, 'e, 'x) batching" where
  "fetch nodeObjectSorter tx fe b =
     (case fe of
        Called f req x \<Rightarrow>
          b\<lparr> waiting := waiting b @ [(f, nodeObjectSorter req)],
             buffered := buffered b @ [\<lparr> request = req, extra = (if truthy tx x then x else None) \<rparr>] \<rparr>
      | Cancelled f \<Rightarrow>
          (let w = filter (\<lambda>(f', h). f' \<noteq> f) (waiting b)
           in b\<lparr> waiting := w,
                 buffered := (if w = [] then [] else buffered b),
                 attached := filter (\<lambda>(f', h, ob). f' \<noteq> f) (attached b) \<rparr>))"

text \<open>
  An interval of \<^verbatim>\<open>bufferTime(this.bufferTimeMS)\<close> ends while it is subscribed: the buffer
  goes through \<^verbatim>\<open>fetchBatch\<close>, and every waiting subscription whose hash is in
  \<^verbatim>\<open>requestHashes\<close> passes \<^verbatim>\<open>first\<close> and moves to \<^verbatim>\<open>responsesOb\<close>.
\<close>

definition tick ::
  "('p \<Rightarrow> string) \<Rightarrow> ('p, 'v, 'e, 'x) batching \<Rightarrow> ('p, 'v, 'e, 'x) batching" where
  "tick nodeObjectSorter b =
     (if waiting b = [] then b
      else
        (let (batchEvent, calls) = fetchBatch nodeObjectSorter (buffered b) (batchCalls b);
             matched = filter (\<lambda>(f, h). h \<in> requestHashes batchEvent) (waiting b)
         in b\<lparr> waiting := filter (\<lambda>(f, h). h \<notin> requestHashes batchEvent) (waiting b),
               buffered := [],
               attached := attached b @ map (\<lambda>(f, h). (f, h, responsesOb batchEvent)) matched,
               batchCalls := calls \<rparr>))"

text \<open>
  The result stream of batch \<open>ob\<close> emits \<open>results\<close>: each attached subscription looks its
  hash up in \<^verbatim>\<open>keyBy(results, (result) => nodeObjectSorter(result.request))\<close> and hands the
  outcome to the store.
\<close>

fun deliver ::
  "('p, 'v, 'e, 'r) config \<Rightarrow> (string \<Rightarrow> ('v, 'p, 'r) IRxBatchSingleResponse option)
     \<Rightarrow> (nat \<times> string \<times> nat) list \<Rightarrow> ('p, 'v, 'e, 'x) rxstore \<Rightarrow> js_error + ('p, 'v, 'e, 'x) rxstore" where
  "deliver cfg responsesDictionary [] s = Inr s"
| "deliver cfg responsesDictionary ((f, h, ob) # rest) s =
     (case dispatch responsesDictionary h of
        Emits v \<Rightarrow> deliver cfg responsesDictionary rest (fetchNext cfg f v s)
      | Throws e \<Rightarrow>
          (case fetchError cfg f e s of
             Inl er \<Rightarrow> Inl er
           | Inr s' \<Rightarrow> deliver cfg responsesDictionary rest s'))"

datatype ('p, 'v, 'r, 'x) batching_event =
    Store "('p, 'v, 'r, 'x) event"
  | Tick
  | BatchNext nat "('v, 'p, 'r) IRxBatchSingleResponse list"

text \<open>
  One step of a batching store whose underlying store has the configuration \<open>cfg\<close>
  (a \<open>batchingConfig\<close>, so \<open>paramHasher cfg\<close> is \<^verbatim>\<open>nodeObjectSorter\<close>). After a call of the
  store, \<^verbatim>\<open>fetch\<close> sees what the call added to \<open>fetcherLog\<close>, in order.
\<close>

definition batchingStep ::
  "('x \<Rightarrow> bool) \<Rightarrow> ('p, 'v, 'e, 'r) config \<Rightarrow> ('p, 'v, 'e, 'x) batching
     \<Rightarrow> ('p, 'v, 'r, 'x) batching_event \<Rightarrow> js_error + ('p, 'v, 'e, 'x) batching" where
  "batchingStep tx cfg b ev =
     (case ev of
        Store e \<Rightarrow>
          (case step cfg (rx b) e of
             Inl er \<Rightarrow> Inl er
           | Inr s' \<Rightarrow>
               Inr (fold (fetch (paramHasher cfg) tx)
                      (drop (length (fetcherLog (rx b))) (fetcherLog s'))
                      (b\<lparr> rx := s' \<rparr>)))
      | Tick \<Rightarrow> Inr (tick (paramHasher cfg) b)
      | BatchNext ob results \<Rightarrow>
          (case deliver cfg (keyBy results (\<lambda>result. paramHasher cfg (resp_request result)))
                  (filter (\<lambda>(f, h, ob'). ob' = ob) (attached b)) (rx b) of
             Inl er \<Rightarrow> Inl er
           | Inr s' \<Rightarrow>
               Inr (b\<lparr> rx := s',
                       attached := filter (\<lambda>(f, h, ob'). fetches s' f \<noteq> None) (attached b) \<rparr>)))"

fun batchingRun ::
  "('x \<Rightarrow> bool) \<Rightarrow> ('p, 'v, 'e, 'r) config \<Rightarrow> ('p, 'v, 'e, 'x) batching
     \<Rightarrow> ('p, 'v, 'r, 'x) batching_event list \<Rightarrow> js_error + ('p, 'v, 'e, 'x) batching" where
  "batchingRun tx cfg b [] = Inr b"
| "batchingRun tx cfg b (ev # evs) =
     (case batchingStep tx cfg b ev of
        Inl er \<Rightarrow> Inl er
      | Inr b' \<Rightarrow> batchingRun tx cfg b' evs)"

section \<open>Notions used in the statements, and concrete inputs\<close>

text \<open>The last value source \<open>j\<close> has emitted in the interleaved sequence \<open>ups\<close>, if any.\<close>

definition latestOf :: "(nat \<times> 'a) list \<Rightarrow> nat \<Rightarrow> 'a option" where
  "latestOf ups j = map_of (rev ups) j"

text \<open>The array \<^verbatim>\<open>combineLatest\<close> holds after the emissions \<open>ups\<close>.\<close>

definition record_all :: "'a option list \<Rightarrow> (nat \<times> 'a) list \<Rightarrow> 'a option list" where
  "record_all latest ups = fold (\<lambda>(j, x) l. l[j := Some x]) ups latest"

text \<open>
  Concrete instances: values are JavaScript numbers (here integers, of which 0 is the
  falsy one), parameters, parsed and raw errors are strings (the empty string is falsy).
\<close>

definition numberTruthy :: "int \<Rightarrow> bool" where
  "numberTruthy n = (n \<noteq> 0)"

definition stringTruthy :: "string \<Rightarrow> bool" where
  "stringTruthy s = (s \<noteq> [])"

definition loadingResult :: "(int, string) IRxStore" where
  "loadingResult = \<lparr> loading = True, val = None, err = None \<rparr>"

definition valueResult :: "int \<Rightarrow> (int, string) IRxStore" where
  "valueResult v = \<lparr> loading = False, val = Some v, err = None \<rparr>"

definition batchCfg :: "(string, int, string, string) config" where
  "batchCfg = batchingConfig (\<lambda>req. req) (\<lambda>raw. raw) numberTruthy stringTruthy"

text \<open>
  A store after \<^verbatim>\<open>getStore("a").subscribe()\<close>: entry 0, its subscriber 1, and the
  subscription 2 to the stream the fetcher returned.
\<close>

definition waitingStore :: "(string, int, string, string) rxstore" where
  "waitingStore =
     (case run batchCfg emptyStore [GetStore ''a'' False None, Subscribe 0] of
        Inr s \<Rightarrow> s
      | Inl _ \<Rightarrow> emptyStore)"

definition ttlCfg :: "(string, int, string, string) config" where
  "ttlCfg = \<lparr> paramHasher = (\<lambda>p. p), errorParserLogger = (\<lambda>raw. raw),
      deleteFromCacheTimeMS = Some 200, truthyValue = numberTruthy, truthyError = stringTruthy \<rparr>"

text \<open>The value of the element \<^verbatim>\<open>pairwise\<close> saw last in the pipeline of an entry.\<close>

definition previousValue :: "('p, 'v, 'e, 'x) entry \<Rightarrow> 'v option" where
  "previousValue e = (case previous e of None \<Rightarrow> None | Some p \<Rightarrow> val p)"

text \<open>
  The results the pipeline makes of the values \<open>vs\<close> of a fetcher's stream, when the
  element before them had the value \<open>pv\<close>.
\<close>

fun passThrough :: "('v \<Rightarrow> bool) \<Rightarrow> 'v option \<Rightarrow> 'v option list \<Rightarrow> ('v, 'e) IRxStore list" where
  "passThrough tv pv [] = []"
| "passThrough tv pv (v # vs) =
     \<lparr> loading = False, val = (if truthy tv v then v else pv), err = None \<rparr> # passThrough tv v vs"

section \<open>Executions: events considered, fetcher calls, and invariants\<close>




























section \<open>Evaluation of concrete executions\<close>

lemmas store_defs =
  step_def getStore_def updateStoreValue_def expireAll_def expireWhere_def expireKey_def
  init_def newEntry_def rsNext_def switchMapNext_def networkFetchOb_def callFetcher_def
  cancelInner_def emit_def mergePair_def truthy_def subscribe_def shareReplaySubscribe_def
  unsubscribe_def onSubscribe_def onUnsubscribe_def clearTimeout_def timerFire_def
  fetchNext_def fetchError_def endFetch_def monitored_def emptyStore_def Let_def

lemma waitingStore_facts:
  "fetches waitingStore 2 = Some \<lparr> f_entry = 0, f_store = Some 0 \<rparr>"
  "map_option observers (heap waitingStore 0) = Some [1]"
  "map_option previous (heap waitingStore 0) = Some (Some loadingResult)"
  "received waitingStore 1 = [loadingResult]"
  by (simp_all add: waitingStore_def batchCfg_def batchingConfig_def loadingResult_def store_defs)

section \<open>The aggregate view\<close>

lemma filterBoolean_map:
  "filterBoolean t (map g js) = [a. j \<leftarrow> js, Some a \<leftarrow> [g j], t a]"
  by (induction js) (auto split: option.splits)

lemma distinctUntilKeyChanged_snoc:
  "distinctUntilKeyChanged_loading k (xs @ [x, y]) =
     distinctUntilKeyChanged_loading k (xs @ [x]) @ (if s_loading y = s_loading x then [] else [y])"
  by (induction xs arbitrary: k) auto

lemma those_Some_iff: "those l = Some xs \<longleftrightarrow> l = map Some xs"
  by (induction l arbitrary: xs) (auto split: option.splits)

lemma those_update: "those l = Some xs \<Longrightarrow> those (l[j := Some x]) = Some (xs[j := x])"
  by (simp add: those_Some_iff map_update)

lemma record_all_Cons: "record_all l ((j, x) # ups) = record_all (l[j := Some x]) ups"
  by (simp add: record_all_def)

lemma those_record_all: "those l \<noteq> None \<Longrightarrow> those (record_all l ups) \<noteq> None"
proof (induction ups arbitrary: l)
  case Nil
  then show ?case by (simp add: record_all_def)
next
  case (Cons u ups)
  obtain j x where u: "u = (j, x)" by (cases u)
  from Cons.prems obtain xs where "those l = Some xs" by auto
  then have "those (l[j := Some x]) \<noteq> None" by (simp add: those_update)
  then show ?case unfolding u record_all_Cons by (rule Cons.IH)
qed

text \<open>Nothing leaves \<^verbatim>\<open>combineLatest\<close> while a source has not emitted.\<close>

lemma combineLatest_none:
  "those (record_all latest ups) = None \<Longrightarrow> combineLatest latest ups = []"
proof (induction ups arbitrary: latest)
  case Nil
  then show ?case by simp
next
  case (Cons u ups)
  obtain j x where u: "u = (j, x)" by (cases u)
  have a: "those (record_all (latest[j := Some x]) ups) = None"
    using Cons.prems by (simp add: u record_all_Cons)
  then have "those (latest[j := Some x]) = None"
    using those_record_all by blast
  with Cons.IH[OF a] show ?case by (simp add: u Let_def)
qed

lemma combineLatest_last:
  "ups \<noteq> [] \<Longrightarrow> those (record_all latest ups) = Some xs \<Longrightarrow>
   combineLatest latest ups \<noteq> [] \<and> last (combineLatest latest ups) = xs"
proof (induction ups arbitrary: latest)
  case Nil
  then show ?case by simp
next
  case (Cons u ups)
  obtain j x where u: "u = (j, x)" by (cases u)
  show ?case
  proof (cases "ups = []")
    case True
    then show ?thesis using Cons.prems by (simp add: u record_all_def Let_def)
  next
    case False
    have a: "those (record_all (latest[j := Some x]) ups) = Some xs"
      using Cons.prems by (simp add: u record_all_Cons)
    from Cons.IH[OF False a] show ?thesis by (simp add: u Let_def)
  qed
qed

lemma record_all_length: "length (record_all l ups) = length l"
  unfolding record_all_def by (induction ups arbitrary: l) auto

lemma record_all_nth:
  "j < length l \<Longrightarrow>
   record_all l ups ! j = (case latestOf ups j of None \<Rightarrow> l ! j | Some x \<Rightarrow> Some x)"
proof (induction ups arbitrary: l)
  case Nil
  then show ?case by (simp add: record_all_def latestOf_def)
next
  case (Cons u ups)
  obtain i x where u: "u = (i, x)" by (cases u)
  have "record_all l (u # ups) ! j = record_all (l[i := Some x]) ups ! j"
    by (simp add: u record_all_def)
  also have "\<dots> = (case latestOf ups j of None \<Rightarrow> (l[i := Some x]) ! j | Some y \<Rightarrow> Some y)"
    using Cons by simp
  finally show ?case using Cons.prems
    by (auto simp: u latestOf_def map_add_def nth_list_update split: option.splits)
qed

lemma record_all_replicate:
  assumes "\<forall>j<n. latestOf ups j \<noteq> None"
  shows "record_all (replicate n None) ups = map (\<lambda>j. Some (the (latestOf ups j))) [0..<n]"
proof (rule nth_equalityI)
  show "length (record_all (replicate n None) ups)
          = length (map (\<lambda>j. Some (the (latestOf ups j))) [0..<n])"
    by (simp add: record_all_length)
next
  fix i assume "i < length (record_all (replicate n None) ups)"
  then have i: "i < n" by (simp add: record_all_length)
  with assms obtain y where "latestOf ups i = Some y" by auto
  then show "record_all (replicate n None) ups ! i
               = map (\<lambda>j. Some (the (latestOf ups j))) [0..<n] ! i"
    using i by (simp add: record_all_nth)
qed

lemma combineLatest_latest:
  assumes "ups \<noteq> []" "\<forall>j<n. latestOf ups j \<noteq> None"
  shows "combineLatest (replicate n None) ups \<noteq> []
       \<and> last (combineLatest (replicate n None) ups) = map (\<lambda>j. the (latestOf ups j)) [0..<n]"
proof -
  have "those (record_all (replicate n None) ups) = Some (map (\<lambda>j. the (latestOf ups j)) [0..<n])"
    by (simp add: record_all_replicate[OF assms(2)] those_Some_iff comp_def)
  from combineLatest_last[OF assms(1) this] show ?thesis .
qed

lemma combineLatest_silent:
  assumes "j < n" "latestOf ups j = None"
  shows "combineLatest (replicate n None) ups = []"
proof -
  have "record_all (replicate n None) ups ! j = None"
    using assms by (simp add: record_all_nth)
  moreover have "j < length (record_all (replicate n None) ups)"
    using assms by (simp add: record_all_length)
  ultimately have "None \<in> set (record_all (replicate n None) ups)"
    by (metis nth_mem)
  then have "those (record_all (replicate n None) ups) = None"
    by (cases "those (record_all (replicate n None) ups)") (auto simp: those_Some_iff)
  then show ?thesis by (rule combineLatest_none)
qed

text \<open>
  C4, as the code has it. \<^verbatim>\<open>getStores\<close> of a non-empty list passes the first combined result
  on, and a later combined result exactly when its \<^verbatim>\<open>loading\<close> differs from the \<^verbatim>\<open>loading\<close> of
  the combined result before it: the filter is \<^verbatim>\<open>distinctUntilKeyChanged("loading")\<close>, so a
  combined result whose value or error lists changed while \<^verbatim>\<open>loading\<close> stayed the same is
  not delivered.
\<close>

theorem getStores_delivers_on_loading_change:
  assumes "n \<noteq> 0"
  shows "(combined tv te n ups = [c] \<longrightarrow> getStores tv te n ups = [c])
       \<and> (combined tv te n ups = cs @ [c, c'] \<longrightarrow>
           getStores tv te n ups =
             distinctUntilKeyChanged_loading None (cs @ [c])
             @ (if s_loading c' = s_loading c then [] else [c']))"
  using assms by (simp add: getStores_def distinctUntilKeyChanged_snoc)

text \<open>
  Two keys: both report \<^verbatim>\<open>loading\<close>, the first delivers 7, then the second delivers 8. The
  result with both values is delivered, since \<^verbatim>\<open>loading\<close> changes with it.
\<close>

theorem getStores_delivers_on_loading_change_witness:
  "getStores numberTruthy stringTruthy 2
     [(0, loadingResult), (1, loadingResult), (0, valueResult 7), (1, valueResult 8)]
   = [\<lparr> s_loading = True, s_value = [], s_error = [] \<rparr>,
      \<lparr> s_loading = False, s_value = [7, 8], s_error = [] \<rparr>]"
proof -
  have n: "(2::nat) \<noteq> 0" by simp
  have c: "combined numberTruthy stringTruthy 2
             [(0, loadingResult), (1, loadingResult), (0, valueResult 7), (1, valueResult 8)]
           = [\<lparr> s_loading = True, s_value = [], s_error = [] \<rparr>]
             @ [\<lparr> s_loading = True, s_value = [7], s_error = [] \<rparr>,
                \<lparr> s_loading = False, s_value = [7, 8], s_error = [] \<rparr>]"
    by (simp add: combined_def combine_def loadingResult_def valueResult_def numberTruthy_def
          Let_def eval_nat_numeral)
  from getStores_delivers_on_loading_change[OF n, where tv = numberTruthy and te = stringTruthy
        and ups = "[(0, loadingResult), (1, loadingResult), (0, valueResult 7), (1, valueResult 8)]"
        and cs = "[\<lparr> s_loading = True, s_value = [], s_error = [] \<rparr>]"
        and c = "\<lparr> s_loading = True, s_value = [7], s_error = [] \<rparr>"
        and c' = "\<lparr> s_loading = False, s_value = [7, 8], s_error = [] \<rparr>"] c
  show ?thesis by simp
qed

text \<open>
  Against C4 as stated: two keys report \<^verbatim>\<open>loading\<close>, then the first delivers 7. The combined
  result changes from no values to the value 7 with \<^verbatim>\<open>loading\<close> still true, and \<^verbatim>\<open>getStores\<close>
  delivers the first combined result only.
\<close>

theorem getStores_contents_change_counterexample:
  "combined numberTruthy stringTruthy 2 [(0, loadingResult), (1, loadingResult), (0, valueResult 7)]
     = [\<lparr> s_loading = True, s_value = [], s_error = [] \<rparr>,
        \<lparr> s_loading = True, s_value = [7], s_error = [] \<rparr>]
   \<and> getStores numberTruthy stringTruthy 2 [(0, loadingResult), (1, loadingResult), (0, valueResult 7)]
     = [\<lparr> s_loading = True, s_value = [], s_error = [] \<rparr>]"
  by (simp add: getStores_def combined_def combine_def loadingResult_def valueResult_def
        numberTruthy_def Let_def eval_nat_numeral)

text \<open>
  The last combined result, as the code builds it: from the latest result of each key,
  with \<^verbatim>\<open>filter(Boolean)\<close> on the values and on the errors.
\<close>

lemma combined_last:
  assumes "ups \<noteq> []" and "\<forall>j<n. latestOf ups j \<noteq> None"
  shows "last (combined tv te n ups) =
           \<lparr> s_loading = (\<exists>j<n. loading (the (latestOf ups j))),
             s_value = [v. j \<leftarrow> [0..<n], Some v \<leftarrow> [val (the (latestOf ups j))], tv v],
             s_error = [e. j \<leftarrow> [0..<n], Some e \<leftarrow> [err (the (latestOf ups j))], te e] \<rparr>"
proof -
  let ?g = "\<lambda>j. the (latestOf ups j)"
  from combineLatest_latest[OF assms]
  have ne: "combineLatest (replicate n None) ups \<noteq> []"
    and l: "last (combineLatest (replicate n None) ups) = map ?g [0..<n]" by auto
  have c: "last (combined tv te n ups) = combine tv te (map ?g [0..<n])"
    unfolding combined_def using ne l by (simp add: last_map)
  have lo: "s_loading (combine tv te (map ?g [0..<n])) = (\<exists>j<n. loading (?g j))"
    by (auto simp: combine_def list_ex_iff)
  show ?thesis
    unfolding c using lo by (simp add: combine_def comp_def filterBoolean_map)
qed

lemma concat_map_truthy:
  assumes "\<forall>j\<in>set js. \<forall>v. g j = Some v \<longrightarrow> t v"
  shows "[v. j \<leftarrow> js, Some v \<leftarrow> [g j], t v] = [v. j \<leftarrow> js, Some v \<leftarrow> [g j]]"
  using assms by (induction js) (auto split: option.splits)

text \<open>
  C5, as the code has it. Once every key of a parameter list of length \<open>n\<close> has reported,
  the combined result after the emissions \<open>ups\<close> is built from the latest result of each
  key: \<^verbatim>\<open>loading\<close> is true exactly when the latest result of some key is loading (so as long
  as some key has reported nothing but loading results), \<^verbatim>\<open>value\<close> is the list of the defined
  values of the latest results in the order of the parameter list, \<^verbatim>\<open>error\<close> the list of their
  defined errors. This is stated for latest results whose defined values and errors are
  truthy.
\<close>

theorem getStores_combines_latest_results:
  assumes "ups \<noteq> []" and "\<forall>j<n. latestOf ups j \<noteq> None"
    and "\<forall>j<n. \<forall>v. val (the (latestOf ups j)) = Some v \<longrightarrow> tv v"
    and "\<forall>j<n. \<forall>e. err (the (latestOf ups j)) = Some e \<longrightarrow> te e"
  shows "last (combined tv te n ups) =
           \<lparr> s_loading = (\<exists>j<n. loading (the (latestOf ups j))),
             s_value = [v. j \<leftarrow> [0..<n], Some v \<leftarrow> [val (the (latestOf ups j))]],
             s_error = [e. j \<leftarrow> [0..<n], Some e \<leftarrow> [err (the (latestOf ups j))]] \<rparr>
         \<and> ((\<exists>j<n. \<forall>x. (j, x) \<in> set ups \<longrightarrow> loading x)
              \<longrightarrow> s_loading (last (combined tv te n ups)))"
proof -
  let ?g = "\<lambda>j. the (latestOf ups j)"
  note c = combined_last[OF assms(1,2), of tv te]
  have v: "[v. j \<leftarrow> [0..<n], Some v \<leftarrow> [val (?g j)], tv v] = [v. j \<leftarrow> [0..<n], Some v \<leftarrow> [val (?g j)]]"
    by (rule concat_map_truthy) (use assms(3) in simp)
  have e: "[e. j \<leftarrow> [0..<n], Some e \<leftarrow> [err (?g j)], te e] = [e. j \<leftarrow> [0..<n], Some e \<leftarrow> [err (?g j)]]"
    by (rule concat_map_truthy) (use assms(4) in simp)
  have eq: "last (combined tv te n ups) =
           \<lparr> s_loading = (\<exists>j<n. loading (?g j)),
             s_value = [v. j \<leftarrow> [0..<n], Some v \<leftarrow> [val (?g j)]],
             s_error = [e. j \<leftarrow> [0..<n], Some e \<leftarrow> [err (?g j)]] \<rparr>"
    using c unfolding v e .
  have "s_loading (last (combined tv te n ups))"
    if "\<exists>j<n. \<forall>x. (j, x) \<in> set ups \<longrightarrow> loading x"
  proof -
    from that obtain j where j: "j < n" "\<forall>x. (j, x) \<in> set ups \<longrightarrow> loading x" by auto
    from assms(2) j(1) obtain y where y: "latestOf ups j = Some y" by auto
    then have "(j, y) \<in> set ups" by (auto simp: latestOf_def dest: map_of_SomeD)
    with j(2) y have "loading (?g j)" by simp
    with j(1) show ?thesis unfolding eq by auto
  qed
  with eq show ?thesis by blast
qed

text \<open>
  Two keys: the first has delivered 7, the second has reported \<^verbatim>\<open>loading\<close> only.
\<close>

theorem getStores_combines_latest_results_witness:
  "last (combined numberTruthy stringTruthy 2
           [(0, loadingResult), (1, loadingResult), (0, valueResult 7)])
     = \<lparr> s_loading = True, s_value = [7], s_error = [] \<rparr>
   \<and> s_loading (last (combined numberTruthy stringTruthy 2
           [(0, loadingResult), (1, loadingResult), (0, valueResult 7)]))"
proof -
  let ?ups = "[(0::nat, loadingResult), (1, loadingResult), (0, valueResult 7)]"
  have l: "latestOf ?ups 0 = Some (valueResult 7)" "latestOf ?ups (Suc 0) = Some loadingResult"
    by (simp_all add: latestOf_def)
  have a: "?ups \<noteq> []" by simp
  have b: "\<forall>j<2. latestOf ?ups j \<noteq> None"
    using l by (simp add: less_Suc_eq eval_nat_numeral)
  have tv: "\<forall>j<2. \<forall>v. val (the (latestOf ?ups j)) = Some v \<longrightarrow> numberTruthy v"
    using l by (simp add: less_Suc_eq eval_nat_numeral valueResult_def loadingResult_def
        numberTruthy_def)
  have te: "\<forall>j<2. \<forall>e. err (the (latestOf ?ups j)) = Some e \<longrightarrow> stringTruthy e"
    using l by (simp add: less_Suc_eq eval_nat_numeral valueResult_def loadingResult_def)
  have w: "\<exists>j<2. \<forall>x. (j, x) \<in> set ?ups \<longrightarrow> loading x"
    by (rule exI[of _ "Suc 0"]) (simp add: loadingResult_def)
  have u: "[0..<2] = [0, Suc 0]" by (simp add: eval_nat_numeral)
  have e: "(\<exists>j<2. loading (the (latestOf ?ups j))) = True"
    using l by (auto simp: loadingResult_def intro: exI[of _ "Suc 0"])
  from getStores_combines_latest_results[OF a b tv te] w
  show ?thesis
    unfolding e u using l by (simp add: valueResult_def loadingResult_def)
qed

text \<open>
  Against C5 as stated. Two keys have both delivered a value, then the first reports
  \<^verbatim>\<open>loading\<close> again (a forced refetch): the combined \<^verbatim>\<open>loading\<close> is true although every key
  has reported \<^verbatim>\<open>loading = false\<close>. A key delivers 7 and then a result without a value (a
  failed refetch): the combined \<^verbatim>\<open>value\<close> is empty although 7 has been seen. A key delivers
  an error and then the value 7: the combined \<^verbatim>\<open>error\<close> is empty although an error has
  been seen.
\<close>

theorem getStores_uses_latest_results_counterexample:
  "combined numberTruthy stringTruthy 2
     [(0, valueResult 7), (1, valueResult 8), (0, \<lparr> loading = True, val = Some 7, err = None \<rparr>)]
     = [\<lparr> s_loading = False, s_value = [7, 8], s_error = [] \<rparr>,
        \<lparr> s_loading = True, s_value = [7, 8], s_error = [] \<rparr>]
   \<and> combined numberTruthy stringTruthy 1
       [(0, valueResult 7), (0, \<lparr> loading = False, val = None, err = Some ''boom'' \<rparr>)]
     = [\<lparr> s_loading = False, s_value = [7], s_error = [] \<rparr>,
        \<lparr> s_loading = False, s_value = [], s_error = [''boom''] \<rparr>]
   \<and> combined numberTruthy stringTruthy 1
       [(0, \<lparr> loading = False, val = None, err = Some ''boom'' \<rparr>), (0, valueResult 7)]
     = [\<lparr> s_loading = False, s_value = [], s_error = [''boom''] \<rparr>,
        \<lparr> s_loading = False, s_value = [7], s_error = [] \<rparr>]"
  by (simp add: combined_def combine_def valueResult_def numberTruthy_def stringTruthy_def
        Let_def eval_nat_numeral)

section \<open>Batching: windows and the dispatch of results\<close>

lemma baseUniq_keys: "set (map f (baseUniq f seen xs)) = set (map f xs) - set seen"
  by (induction xs arbitrary: seen) auto

lemma baseUniq_distinct: "distinct (map f (baseUniq f seen xs))"
  by (induction xs arbitrary: seen) (auto simp: baseUniq_keys simp flip: set_map)

lemma baseUniq_subseq: "subseq (baseUniq f seen xs) xs"
  by (induction xs arbitrary: seen) auto

text \<open>An element \<^verbatim>\<open>uniqBy\<close> keeps is the first element of the array with its key.\<close>

lemma baseUniq_first:
  "u \<in> set (baseUniq f seen xs) \<Longrightarrow> find (\<lambda>y. f y = f u) xs = Some u"
proof (induction xs arbitrary: seen)
  case Nil
  then show ?case by simp
next
  case (Cons x xs)
  show ?case
  proof (cases "f x \<in> set seen")
    case True
    with Cons.prems have u: "u \<in> set (baseUniq f seen xs)" by simp
    then have "f u \<in> set (map f (baseUniq f seen xs))" by simp
    then have "f u \<notin> set seen" unfolding baseUniq_keys by simp
    with True have "f x \<noteq> f u" by auto
    with Cons.IH[OF u] show ?thesis by simp
  next
    case False
    with Cons.prems consider "u = x" | "u \<in> set (baseUniq f (f x # seen) xs)" by auto
    then show ?thesis
    proof cases
      case 1
      then show ?thesis by simp
    next
      case 2
      then have "f u \<in> set (map f (baseUniq f (f x # seen) xs))" by simp
      then have "f u \<noteq> f x" unfolding baseUniq_keys by simp
      with Cons.IH[OF 2] show ?thesis by auto
    qed
  qed
qed

text \<open>
  C6. \<^verbatim>\<open>fetchBatch\<close> on the requests \<open>reqs\<close> of a window calls the collective fetch function
  once. Its argument is a sub-list of \<open>reqs\<close> in which no two requests have the same hash
  and every hash of \<open>reqs\<close> occurs, and each of its elements is the first element of \<open>reqs\<close>
  with that hash (so it carries the \<^verbatim>\<open>extra\<close> of the first occurrence). The hash of every
  request of \<open>reqs\<close>, first occurrence or not, is in \<^verbatim>\<open>requestHashes\<close>, which is what the
  \<^verbatim>\<open>first\<close> of each caller tests.
\<close>

theorem fetchBatch_calls_once_with_deduplicated_requests:
  assumes "fetchBatch nodeObjectSorter reqs calls = (batchEvent, calls')"
  shows "\<exists>uniqRequests.
           calls' = calls @ [uniqRequests]
         \<and> subseq uniqRequests reqs
         \<and> distinct (map (\<lambda>req. nodeObjectSorter (request req)) uniqRequests)
         \<and> set (map (\<lambda>req. nodeObjectSorter (request req)) uniqRequests)
             = set (map (\<lambda>req. nodeObjectSorter (request req)) reqs)
         \<and> (\<forall>u \<in> set uniqRequests.
               find (\<lambda>req. nodeObjectSorter (request req) = nodeObjectSorter (request u)) reqs = Some u)
         \<and> (\<forall>req \<in> set reqs. nodeObjectSorter (request req) \<in> requestHashes batchEvent)"
proof -
  let ?h = "\<lambda>req. nodeObjectSorter (request req)"
  let ?u = "uniqBy reqs ?h"
  have c: "calls' = calls @ [?u]" and e: "requestHashes batchEvent = set (map ?h reqs)"
    using assms by (auto simp: fetchBatch_def Let_def)
  have "subseq ?u reqs" unfolding uniqBy_def by (rule baseUniq_subseq)
  moreover have "distinct (map ?h ?u)" unfolding uniqBy_def by (rule baseUniq_distinct)
  moreover have "set (map ?h ?u) = set (map ?h reqs)"
    unfolding uniqBy_def baseUniq_keys by simp
  moreover have "\<forall>u \<in> set ?u. find (\<lambda>req. ?h req = ?h u) reqs = Some u"
    unfolding uniqBy_def using baseUniq_first by fast
  moreover have "\<forall>req \<in> set reqs. ?h req \<in> requestHashes batchEvent"
    unfolding e by simp
  ultimately show ?thesis using c by blast
qed

text \<open>
  A window with the requests a (extra 1), b, a (extra 2): the call receives a with the
  extra 1, then b.
\<close>

theorem fetchBatch_calls_once_with_deduplicated_requests_witness:
  "fetchBatch (\<lambda>req. req)
     [\<lparr> request = ''a'', extra = Some (1::int) \<rparr>, \<lparr> request = ''b'', extra = None \<rparr>,
      \<lparr> request = ''a'', extra = Some 2 \<rparr>] []
   = (\<lparr> requestHashes = {''a'', ''b''}, responsesOb = 0 \<rparr>,
      [[\<lparr> request = ''a'', extra = Some 1 \<rparr>, \<lparr> request = ''b'', extra = None \<rparr>]])
   \<and> (\<exists>uniqRequests.
        [[\<lparr> request = ''a'', extra = Some (1::int) \<rparr>, \<lparr> request = ''b'', extra = None \<rparr>]]
          = [] @ [uniqRequests]
      \<and> distinct (map request uniqRequests)
      \<and> set (map request uniqRequests) = {''a'', ''b''})"
proof -
  let ?reqs = "[\<lparr> request = ''a'', extra = Some (1::int) \<rparr>, \<lparr> request = ''b'', extra = None \<rparr>,
      \<lparr> request = ''a'', extra = Some 2 \<rparr>]"
  have f: "fetchBatch (\<lambda>req. req) ?reqs []
   = (\<lparr> requestHashes = {''a'', ''b''}, responsesOb = 0 \<rparr>,
      [[\<lparr> request = ''a'', extra = Some 1 \<rparr>, \<lparr> request = ''b'', extra = None \<rparr>]])"
    by (auto simp: fetchBatch_def uniqBy_def Let_def)
  from fetchBatch_calls_once_with_deduplicated_requests[OF f] f
  show ?thesis by auto
qed

lemma emit_received:
  "heap s i = Some e \<Longrightarrow> n \<in> set (observers e) \<Longrightarrow>
   received (emit cfg i x s) n
     = received s n @ [mergePair (truthyValue cfg) (truthyError cfg) (previous e) x]"
  by (simp add: emit_def Let_def)

lemma keyBy_None_aux:
  "fold (\<lambda>x m. m(f x \<mapsto> x)) xs m0 k = None \<longleftrightarrow> (m0 k = None \<and> k \<notin> f ` set xs)"
  by (induction xs arbitrary: m0) auto

lemma keyBy_None_iff: "keyBy xs f k = None \<longleftrightarrow> k \<notin> f ` set xs"
  by (simp add: keyBy_def keyBy_None_aux)

text \<open>
  C8. When the hash of a request is not among the hashes of the results of the collective
  fetch, the dictionary has no entry for it, the stream of the request emits \<^verbatim>\<open>undefined\<close>,
  and each subscriber of the request's store entry receives one more result, with
  \<^verbatim>\<open>loading\<close> false and no error. When the dictionary's entry carries an error the stream
  fails with it; otherwise it emits the entry's response.
\<close>

theorem dispatch_of_batch_results:
  "(requestHash \<notin> set (map (\<lambda>result. nodeObjectSorter (resp_request result)) results) \<longrightarrow>
      keyBy results (\<lambda>result. nodeObjectSorter (resp_request result)) requestHash = None)
   \<and> (responsesDictionary requestHash = None \<longrightarrow>
        dispatch responsesDictionary requestHash = Emits None
        \<and> (\<forall>fs e n. fetches s f = Some fs \<and> heap s (f_entry fs) = Some e \<and> n \<in> set (observers e) \<longrightarrow>
              (\<exists>s' m. deliver cfg responsesDictionary [(f, requestHash, ob)] s = Inr s'
                 \<and> received s' n = received s n @ [m] \<and> \<not> loading m \<and> err m = None)))
   \<and> (\<forall>v e. responsesDictionary requestHash = Some v \<and> resp_error v = Some e \<longrightarrow>
        dispatch responsesDictionary requestHash = Throws e)
   \<and> (\<forall>v. responsesDictionary requestHash = Some v \<and> resp_error v = None \<longrightarrow>
        dispatch responsesDictionary requestHash = Emits (response v))"
proof (intro conjI impI allI)
  assume "requestHash \<notin> set (map (\<lambda>result. nodeObjectSorter (resp_request result)) results)"
  then show "keyBy results (\<lambda>result. nodeObjectSorter (resp_request result)) requestHash = None"
    by (simp add: keyBy_None_iff)
next
  assume "responsesDictionary requestHash = None"
  then show "dispatch responsesDictionary requestHash = Emits None"
    by (simp add: dispatch_def)
next
  fix fs e n
  assume d: "responsesDictionary requestHash = None"
    and h: "fetches s f = Some fs \<and> heap s (f_entry fs) = Some e \<and> n \<in> set (observers e)"
  have "deliver cfg responsesDictionary [(f, requestHash, ob)] s = Inr (fetchNext cfg f None s)"
    using d by (simp add: dispatch_def)
  moreover have "received (fetchNext cfg f None s) n = received s n @
      [mergePair (truthyValue cfg) (truthyError cfg) (previous e)
         \<lparr> loading = False, val = None, err = None \<rparr>]"
    using h by (simp add: fetchNext_def emit_received)
  ultimately show "\<exists>s' m. deliver cfg responsesDictionary [(f, requestHash, ob)] s = Inr s'
                 \<and> received s' n = received s n @ [m] \<and> \<not> loading m \<and> err m = None"
    by (simp add: mergePair_def truthy_def)
next
  fix v e
  assume "responsesDictionary requestHash = Some v \<and> resp_error v = Some e"
  then show "dispatch responsesDictionary requestHash = Throws e"
    by (simp add: dispatch_def)
next
  fix v
  assume "responsesDictionary requestHash = Some v \<and> resp_error v = None"
  then show "dispatch responsesDictionary requestHash = Emits (response v)"
    by (simp add: dispatch_def)
qed

text \<open>
  The request \<^verbatim>\<open>"a"\<close> is waiting (\<open>waitingStore\<close>). The collective fetch returns no result:
  the subscriber of \<^verbatim>\<open>"a"\<close> receives a result that is not loading. It returns a result with
  an error for \<^verbatim>\<open>"a"\<close>: the stream fails with it. It returns a response: the stream emits it.
\<close>

theorem dispatch_of_batch_results_witness:
  "dispatch (keyBy ([] :: (int, string, string) IRxBatchSingleResponse list)
               (\<lambda>result. resp_request result)) ''a'' = Emits None
   \<and> (\<exists>s' m. deliver batchCfg
                (keyBy ([] :: (int, string, string) IRxBatchSingleResponse list)
                   (\<lambda>result. resp_request result))
                [(2, ''a'', 0)] waitingStore = Inr s'
            \<and> received s' 1 = [loadingResult, m] \<and> \<not> loading m \<and> err m = None)
   \<and> dispatch (keyBy [\<lparr> response = (None :: int option), resp_request = ''a'',
                         resp_error = Some ''BatchTestError'' \<rparr>]
                  (\<lambda>result. resp_request result)) ''a'' = Throws ''BatchTestError''
   \<and> dispatch (keyBy [\<lparr> response = Some (5::int), resp_request = ''a'',
                         resp_error = (None :: string option) \<rparr>]
                  (\<lambda>result. resp_request result)) ''a'' = Emits (Some 5)"
proof -
  let ?none = "keyBy ([] :: (int, string, string) IRxBatchSingleResponse list)
                 (\<lambda>result. resp_request result)"
  let ?bad = "\<lparr> response = (None :: int option), resp_request = ''a'',
                resp_error = Some ''BatchTestError'' \<rparr>"
  let ?good = "\<lparr> response = Some (5::int), resp_request = ''a'',
                 resp_error = (None :: string option) \<rparr>"
  note t = dispatch_of_batch_results[where requestHash = "''a''" and nodeObjectSorter = "\<lambda>req. req"
        and results = "[] :: (int, string, string) IRxBatchSingleResponse list"
        and s = waitingStore and f = 2 and cfg = batchCfg and ob = 0]
  have n: "?none ''a'' = None"
    using t[where responsesDictionary = ?none, THEN conjunct1] by simp
  have h: "fetches waitingStore 2 = Some \<lparr> f_entry = 0, f_store = Some 0 \<rparr>"
    by (rule waitingStore_facts)
  obtain e where e: "heap waitingStore 0 = Some e" "observers e = [1]"
    using waitingStore_facts(2) by (cases "heap waitingStore 0") auto
  have 12: "dispatch ?none ''a'' = Emits None
        \<and> (\<forall>fs e n. fetches waitingStore 2 = Some fs \<and> heap waitingStore (f_entry fs) = Some e
               \<and> n \<in> set (observers e) \<longrightarrow>
              (\<exists>s' m. deliver batchCfg ?none [(2, ''a'', 0)] waitingStore = Inr s'
                 \<and> received s' n = received waitingStore n @ [m] \<and> \<not> loading m \<and> err m = None))"
    using t[where responsesDictionary = ?none, THEN conjunct2, THEN conjunct1] n by blast
  then have 1: "dispatch ?none ''a'' = Emits None" by blast
  have 2: "\<exists>s' m. deliver batchCfg ?none [(2, ''a'', 0)] waitingStore = Inr s'
                 \<and> received s' 1 = received waitingStore 1 @ [m] \<and> \<not> loading m \<and> err m = None"
    using 12[THEN conjunct2, rule_format, of "\<lparr> f_entry = 0, f_store = Some 0 \<rparr>" e 1] h e by simp
  have 3: "dispatch (keyBy [?bad] (\<lambda>result. resp_request result)) ''a'' = Throws ''BatchTestError''"
    using t[where responsesDictionary = "keyBy [?bad] (\<lambda>result. resp_request result)",
        THEN conjunct2, THEN conjunct2, THEN conjunct1, rule_format, of ?bad "''BatchTestError''"]
    by (simp add: keyBy_def)
  have 4: "dispatch (keyBy [?good] (\<lambda>result. resp_request result)) ''a'' = Emits (Some 5)"
    using t[where responsesDictionary = "keyBy [?good] (\<lambda>result. resp_request result)",
        THEN conjunct2, THEN conjunct2, THEN conjunct2, rule_format, of ?good]
    by (simp add: keyBy_def)
  from 1 2 3 4 waitingStore_facts(4) show ?thesis by simp
qed


section \<open>The pipeline of an entry\<close>

lemma emit_eq:
  "heap s i = Some e \<Longrightarrow>
   emit cfg i x s =
     s\<lparr> heap := (heap s)(i \<mapsto> e\<lparr> previous := Some x,
            replay := Some (mergePair (truthyValue cfg) (truthyError cfg) (previous e) x) \<rparr>),
        received := (\<lambda>n. if n \<in> set (observers e)
                         then received s n @ [mergePair (truthyValue cfg) (truthyError cfg) (previous e) x]
                         else received s n) \<rparr>"
  by (simp add: emit_def Let_def)

lemma mergePair_value:
  "mergePair tv te prev \<lparr> loading = False, val = v, err = None \<rparr>
     = \<lparr> loading = False,
         val = (if truthy tv v then v else (case prev of None \<Rightarrow> None | Some p \<Rightarrow> val p)),
         err = None \<rparr>"
  by (simp add: mergePair_def truthy_def)

lemma fetchNext_eq:
  assumes "fetches s f = Some fs" "heap s (f_entry fs) = Some e"
  shows "fetchNext cfg f v s =
     s\<lparr> heap := (heap s)(f_entry fs \<mapsto> e\<lparr> previous := Some \<lparr> loading = False, val = v, err = None \<rparr>,
            replay := Some \<lparr> loading = False, val = (if truthy (truthyValue cfg) v then v else previousValue e), err = None \<rparr> \<rparr>),
        received := (\<lambda>n. if n \<in> set (observers e)
                         then received s n @ [\<lparr> loading = False, val = (if truthy (truthyValue cfg) v then v else previousValue e), err = None \<rparr>]
                         else received s n) \<rparr>"
  using assms
  by (simp add: fetchNext_def emit_eq mergePair_value previousValue_def cong: if_cong split del: if_split)

lemma passThrough_Nil [simp]: "passThrough tv pv vs = [] \<longleftrightarrow> vs = []"
  by (cases vs) auto

lemma fold_fetchNext:
  fixes s :: "('p, 'v, 'e, 'x) rxstore"
  assumes "fetches s f = Some fs" "heap s (f_entry fs) = Some e"
  shows "\<exists>e'. heap (fold (fetchNext cfg f) vs s) (f_entry fs) = Some e'
      \<and> fetches (fold (fetchNext cfg f) vs s) = fetches s
      \<and> nextId (fold (fetchNext cfg f) vs s) = nextId s
      \<and> store (fold (fetchNext cfg f) vs s) = store s
      \<and> observers e' = observers e \<and> connected e' = connected e \<and> e_key e' = e_key e
      \<and> (vs \<noteq> [] \<longrightarrow> replay e' = Some (last (passThrough (truthyValue cfg) (previousValue e) vs)))
      \<and> (\<forall>n \<in> set (observers e). received (fold (fetchNext cfg f) vs s) n
            = received s n @ passThrough (truthyValue cfg) (previousValue e) vs)"
  using assms
proof (induction vs arbitrary: s e)
  case Nil
  then show ?case by simp
next
  case (Cons v vs)
  let ?m = "\<lparr> loading = False, val = (if truthy (truthyValue cfg) v then v else previousValue e), err = None \<rparr> :: ('v, 'e) IRxStore"
  let ?e1 = "e\<lparr> previous := Some \<lparr> loading = False, val = v, err = None \<rparr>, replay := Some ?m \<rparr>"
  let ?s1 = "fetchNext cfg f v s"
  let ?s2 = "fold (fetchNext cfg f) vs ?s1"
  have s1: "?s1 = s\<lparr> heap := (heap s)(f_entry fs \<mapsto> ?e1),
        received := (\<lambda>n. if n \<in> set (observers e) then received s n @ [?m] else received s n) \<rparr>"
    by (rule fetchNext_eq[OF Cons.prems])
  have a: "fetches ?s1 f = Some fs" and b: "heap ?s1 (f_entry fs) = Some ?e1"
    using Cons.prems by (simp_all add: s1)
  have f1: "fetches ?s1 = fetches s" "nextId ?s1 = nextId s" "store ?s1 = store s"
    by (simp_all add: s1)
  have r1: "\<And>n. n \<in> set (observers e) \<Longrightarrow> received ?s1 n = received s n @ [?m]"
    by (simp add: s1)
  have pv: "previousValue ?e1 = v" by (simp add: previousValue_def)
  from Cons.IH[OF a b] obtain e' where
    e': "heap ?s2 (f_entry fs) = Some e'"
      "fetches ?s2 = fetches ?s1" "nextId ?s2 = nextId ?s1" "store ?s2 = store ?s1"
      "observers e' = observers ?e1" "connected e' = connected ?e1" "e_key e' = e_key ?e1"
      "vs \<noteq> [] \<longrightarrow> replay e' = Some (last (passThrough (truthyValue cfg) (previousValue ?e1) vs))"
      "\<forall>n \<in> set (observers ?e1). received ?s2 n
            = received ?s1 n @ passThrough (truthyValue cfg) (previousValue ?e1) vs"
    by blast
  have rp: "replay e' = Some (last (passThrough (truthyValue cfg) (previousValue e) (v # vs)))"
  proof (cases "vs = []")
    case True
    then have "e' = ?e1" using e'(1) b by simp
    then have "replay e' = Some ?m" by simp
    then show ?thesis using True by simp
  next
    case False
    then show ?thesis using e'(8) unfolding pv by simp
  qed
  have rc: "\<forall>n \<in> set (observers e). received ?s2 n
            = received s n @ passThrough (truthyValue cfg) (previousValue e) (v # vs)"
  proof
    fix n assume n: "n \<in> set (observers e)"
    then have "received ?s2 n = received ?s1 n @ passThrough (truthyValue cfg) v vs"
      using e'(9) unfolding pv by simp
    then show "received ?s2 n = received s n @ passThrough (truthyValue cfg) (previousValue e) (v # vs)"
      using r1[OF n] by simp
  qed
  have "heap (fold (fetchNext cfg f) (v # vs) s) (f_entry fs) = Some e'"
    using e'(1) by simp
  moreover have "fetches (fold (fetchNext cfg f) (v # vs) s) = fetches s"
      "nextId (fold (fetchNext cfg f) (v # vs) s) = nextId s"
      "store (fold (fetchNext cfg f) (v # vs) s) = store s"
    using e'(2,3,4) f1 by simp_all
  moreover have "observers e' = observers e" "connected e' = connected e" "e_key e' = e_key e"
    using e'(5,6,7) by simp_all
  moreover have "\<forall>n \<in> set (observers e). received (fold (fetchNext cfg f) (v # vs) s) n
            = received s n @ passThrough (truthyValue cfg) (previousValue e) (v # vs)"
    using rc by simp
  ultimately show ?case using rp by blast
qed


lemma mergePair_error:
  "mergePair tv te prev \<lparr> loading = False, val = None, err = Some x \<rparr>
     = \<lparr> loading = False, val = (case prev of None \<Rightarrow> None | Some p \<Rightarrow> val p),
         err = (if te x then Some x else None) \<rparr>"
  by (simp add: mergePair_def truthy_def)

lemma mergePair_loading:
  "mergePair tv te prev \<lparr> loading = True, val = None, err = None \<rparr>
     = \<lparr> loading = True, val = (case prev of None \<Rightarrow> None | Some p \<Rightarrow> val p), err = None \<rparr>"
  by (simp add: mergePair_def truthy_def)

lemma networkFetchOb_eq:
  assumes "heap s i = Some e"
  shows "networkFetchOb cfg i s =
     s\<lparr> heap := (heap s)(i \<mapsto> e\<lparr> previous := Some \<lparr> loading = True, val = None, err = None \<rparr>,
            replay := Some \<lparr> loading = True, val = previousValue e, err = None \<rparr>,
            inner := Some (nextId s) \<rparr>),
        received := (\<lambda>n. if n \<in> set (observers e)
                         then received s n @ [\<lparr> loading = True, val = previousValue e, err = None \<rparr>]
                         else received s n),
        fetches := (fetches s)(nextId s \<mapsto> \<lparr> f_entry = i, f_store = map_of (store s) (e_key e) \<rparr>),
        fetcherLog := fetcherLog s @ [Called (nextId s) (params e) (e_extra e)],
        nextId := Suc (nextId s) \<rparr>"
  using assms
  by (simp add: networkFetchOb_def callFetcher_def emit_eq mergePair_loading previousValue_def Let_def
        cong: if_cong)


lemma fetchError_eq:
  fixes s :: "('p, 'v, 'e, 'x) rxstore"
  assumes "fetches s f = Some fs" "f_store fs = Some j" "heap s j = Some ej"
    and "heap s (f_entry fs) = Some e"
  shows "fetchError cfg f raw s =
     Inr (s\<lparr> heap := (heap s)(j \<mapsto> ej\<lparr> lastFetchFailed := True \<rparr>,
               f_entry fs \<mapsto> e\<lparr> lastFetchFailed := (f_entry fs = j \<or> lastFetchFailed e),
                   previous := Some \<lparr> loading = False, val = None, err = Some (errorParserLogger cfg raw) \<rparr>,
                   replay := Some \<lparr> loading = False, val = previousValue e,
                              err = (if truthyError cfg (errorParserLogger cfg raw)
                                     then Some (errorParserLogger cfg raw) else None) \<rparr>,
                   inner := None \<rparr>),
             received := (\<lambda>n. if n \<in> set (observers e)
                         then received s n @ [\<lparr> loading = False, val = previousValue e,
                              err = (if truthyError cfg (errorParserLogger cfg raw)
                                     then Some (errorParserLogger cfg raw) else None) \<rparr>]
                         else received s n),
             fetches := (fetches s)(f := None) \<rparr>)"
proof (cases "f_entry fs = j")
  case True
  then have "ej = e" using assms by simp
  then show ?thesis using assms True
    by (simp add: fetchError_def emit_eq endFetch_def mergePair_error previousValue_def Let_def
          cong: if_cong split del: if_split)
next
  case False
  then show ?thesis using assms
    by (simp add: fetchError_def emit_eq endFetch_def mergePair_error previousValue_def Let_def
          fun_upd_twist cong: if_cong split del: if_split)
qed

lemma passThrough_length: "length (passThrough tv pv vs) = length vs"
  by (induction vs arbitrary: pv) auto

lemma passThrough_nth:
  "k < length vs \<Longrightarrow>
   passThrough tv pv vs ! k =
     \<lparr> loading = False,
       val = (if truthy tv (vs ! k) then vs ! k else if k = 0 then pv else vs ! (k - 1)),
       err = None \<rparr>"
proof (induction vs arbitrary: pv k)
  case Nil
  then show ?case by simp
next
  case (Cons v vs)
  show ?case
  proof (cases k)
    case 0
    then show ?thesis by simp
  next
    case (Suc k')
    with Cons.prems have "k' < length vs" by simp
    from Cons.IH[OF this, of v] show ?thesis
      unfolding Suc by (cases k') simp_all
  qed
qed

lemma subscribe_replayed:
  fixes s :: "('p, 'v, 'e, 'x) rxstore"
  assumes "heap s i = Some e" "connected e" "replay e = Some m" "subscribe cfg i s = Inr s'"
  shows "received s' (nextId s) = [m]"
  using assms
  by (auto simp: subscribe_def shareReplaySubscribe_def onSubscribe_def clearTimeout_def Let_def
        split: if_splits option.splits)

lemma rsNext_refetch:
  assumes "heap s i = Some e" "connected e" "inner e = None"
  shows "rsNext cfg i None s
           = networkFetchOb cfg i (s\<lparr> heap := (heap s)(i \<mapsto> e\<lparr> updateValueRS := None \<rparr>) \<rparr>)"
  using assms by (simp add: rsNext_def switchMapNext_def cancelInner_def Let_def)

text \<open>
  C3, as the code has it. While the subscription \<open>f\<close> to a fetcher's stream is live, for
  the values \<open>vs\<close> the stream produces one after the other every current subscriber of the
  entry receives exactly one further result per value, in order, each with \<^verbatim>\<open>loading\<close> false
  and no error, and none with \<^verbatim>\<open>loading\<close> true in between. The result carries the value
  itself when the value is truthy; for a falsy value (\<^verbatim>\<open>undefined\<close>, 0, the empty string ...)
  it carries the value of the element before it in the pipeline. A subscriber that
  attaches afterwards first receives the last of these results (\<^verbatim>\<open>shareReplay(1)\<close>).
\<close>

theorem fetched_values_pass_through:
  fixes s :: "('p, 'v, 'e, 'x) rxstore"
  assumes "fetches s f = Some fs" and "heap s (f_entry fs) = Some e"
  shows "\<exists>ms. length ms = length vs
     \<and> (\<forall>k<length vs. \<not> loading (ms ! k) \<and> err (ms ! k) = None
            \<and> val (ms ! k) = (if truthy (truthyValue cfg) (vs ! k) then vs ! k
                              else if k = 0 then previousValue e else vs ! (k - 1)))
     \<and> (\<forall>n \<in> set (observers e). received (fold (fetchNext cfg f) vs s) n = received s n @ ms)
     \<and> (vs \<noteq> [] \<and> connected e \<longrightarrow>
          (\<forall>s'. subscribe cfg (f_entry fs) (fold (fetchNext cfg f) vs s) = Inr s'
                \<longrightarrow> received s' (nextId s) = [last ms]))"
proof -
  let ?ms = "passThrough (truthyValue cfg) (previousValue e) vs :: ('v, 'e) IRxStore list"
  let ?s = "fold (fetchNext cfg f) vs s"
  from fold_fetchNext[OF assms, of cfg vs] obtain e' where
    e': "heap ?s (f_entry fs) = Some e'" "nextId ?s = nextId s" "connected e' = connected e"
      "vs \<noteq> [] \<longrightarrow> replay e' = Some (last ?ms)"
      "\<forall>n \<in> set (observers e). received ?s n = received s n @ ?ms"
    by blast
  have "\<forall>s'. subscribe cfg (f_entry fs) ?s = Inr s' \<longrightarrow> received s' (nextId s) = [last ?ms]"
    if "vs \<noteq> [] \<and> connected e"
    using subscribe_replayed[OF e'(1), of "last ?ms" cfg] e'(2,3,4) that by auto
  moreover have "\<forall>k<length vs. \<not> loading (?ms ! k) \<and> err (?ms ! k) = None
            \<and> val (?ms ! k) = (if truthy (truthyValue cfg) (vs ! k) then vs ! k
                              else if k = 0 then previousValue e else vs ! (k - 1))"
    by (simp add: passThrough_nth)
  ultimately show ?thesis using e'(5) passThrough_length[of "truthyValue cfg" "previousValue e" vs]
    by blast
qed

text \<open>
  C2, as the code has it. When the stream of the live subscription \<open>f\<close> fails with \<open>raw\<close>
  (\<open>j\<close> is the entry the subscriber function of \<^verbatim>\<open>networkFetchOb\<close> found under its key), the
  call does not raise, every subscriber of the entry receives one further result with
  \<^verbatim>\<open>loading\<close> false, and \<^verbatim>\<open>lastFetchFailed\<close> is set. The result carries the error the parser
  returns when that error is truthy, and no error when it is falsy
  (\<^verbatim>\<open>newValue.error ? { error: newValue.error } : undefined\<close>). The stream goes on: the
  subscribers stay, and the next \<^verbatim>\<open>getStore\<close> of the key, without \<^verbatim>\<open>force\<close>, makes them receive a
  loading result.
\<close>

theorem fetch_failure_becomes_result:
  fixes s :: "('p, 'v, 'e, 'x) rxstore"
  assumes "fetches s f = Some fs" and "f_store fs = Some j" and "heap s j = Some ej"
    and "heap s (f_entry fs) = Some e"
  shows "\<exists>s'. fetchError cfg f raw s = Inr s'
     \<and> (\<forall>n \<in> set (observers e).
           received s' n = received s n @
             [\<lparr> loading = False, val = previousValue e,
                err = (if truthyError cfg (errorParserLogger cfg raw)
                       then Some (errorParserLogger cfg raw) else None) \<rparr>])
     \<and> (\<exists>e'. heap s' (f_entry fs) = Some e' \<and> observers e' = observers e \<and> connected e' = connected e)
     \<and> (\<exists>ej'. heap s' j = Some ej' \<and> lastFetchFailed ej')
     \<and> (connected e \<and> j = f_entry fs \<and> map_of (store s) (paramHasher cfg p) = Some j \<longrightarrow>
          (\<exists>s''. getStore cfg p False x s' = Inr (j, s'')
             \<and> (\<forall>n \<in> set (observers e).
                   received s'' n = received s' n @ [\<lparr> loading = True, val = None, err = None \<rparr>])))"
proof -
  let ?m = "\<lparr> loading = False, val = previousValue e,
                err = (if truthyError cfg (errorParserLogger cfg raw)
                       then Some (errorParserLogger cfg raw) else None) \<rparr> :: ('v, 'e) IRxStore"
  let ?e' = "e\<lparr> lastFetchFailed := (f_entry fs = j \<or> lastFetchFailed e),
                   previous := Some \<lparr> loading = False, val = None, err = Some (errorParserLogger cfg raw) \<rparr>,
                   replay := Some ?m, inner := None \<rparr>"
  let ?s' = "s\<lparr> heap := (heap s)(j \<mapsto> ej\<lparr> lastFetchFailed := True \<rparr>, f_entry fs \<mapsto> ?e'),
             received := (\<lambda>n. if n \<in> set (observers e) then received s n @ [?m] else received s n),
             fetches := (fetches s)(f := None) \<rparr>"
  have eq: "fetchError cfg f raw s = Inr ?s'"
    by (rule fetchError_eq[OF assms])
  have r: "\<forall>n \<in> set (observers e). received ?s' n = received s n @ [?m]"
    by simp
  have h: "heap ?s' (f_entry fs) = Some ?e'" by simp
  have hj: "\<exists>ej'. heap ?s' j = Some ej' \<and> lastFetchFailed ej'" by simp
  have retry: "\<exists>s''. getStore cfg p False x ?s' = Inr (j, s'')
             \<and> (\<forall>n \<in> set (observers e).
                   received s'' n = received ?s' n @ [\<lparr> loading = True, val = None, err = None \<rparr>])"
    if c: "connected e \<and> j = f_entry fs \<and> map_of (store s) (paramHasher cfg p) = Some j"
  proof -
    let ?e1 = "?e'\<lparr> updateValueRS := None \<rparr>"
    let ?s1 = "?s'\<lparr> heap := (heap ?s')(j \<mapsto> ?e1) \<rparr>"
    have i: "init cfg p x ?s' = ?s'" using c by (simp add: init_def)
    have hj': "heap ?s' j = Some ?e'" using c by simp
    have g: "getStore cfg p False x ?s' = Inr (j, rsNext cfg j None ?s')"
      unfolding getStore_def i Let_def using c hj' by simp
    have h1: "heap ?s1 j = Some ?e1" by simp
    have rs: "rsNext cfg j None ?s' = networkFetchOb cfg j ?s1"
      by (rule rsNext_refetch[OF hj']) (use c in simp_all)
    have "\<forall>n \<in> set (observers e). received (networkFetchOb cfg j ?s1) n
             = received ?s' n @ [\<lparr> loading = True, val = None, err = None \<rparr>]"
      unfolding networkFetchOb_eq[OF h1] by (simp add: previousValue_def)
    with g rs show ?thesis by simp
  qed
  show ?thesis
    apply (rule exI[of _ ?s'])
    using eq r h hj retry by auto
qed


lemma waitingStore_entry:
  "heap waitingStore 0 =
     Some \<lparr> e_key = ''a'', params = ''a'', e_extra = None, lastFetchFailed = False,
            clearFromStorageTimer = None, updateValueRS = None, connected = True,
            inner = Some 2, previous = Some loadingResult, replay = Some loadingResult,
            observers = [1], counter = 0 \<rparr>"
  "nextId waitingStore = 3"
  "store waitingStore = [(''a'', 0)]"
  by (simp_all add: waitingStore_def batchCfg_def batchingConfig_def loadingResult_def store_defs)

text \<open>
  \<^verbatim>\<open>"a"\<close> has one subscriber and its fetcher's stream is live (\<open>waitingStore\<close>). The stream
  produces 5, then 7: the subscriber receives a result for each, and a subscriber that
  attaches afterwards receives the result for 7.
\<close>

theorem fetched_values_pass_through_witness:
  "\<exists>ms. length ms = 2
     \<and> \<not> loading (ms ! 0) \<and> err (ms ! 0) = None \<and> val (ms ! 0) = Some 5
     \<and> \<not> loading (ms ! 1) \<and> err (ms ! 1) = None \<and> val (ms ! 1) = Some 7
     \<and> received (fold (fetchNext batchCfg 2) [Some 5, Some 7] waitingStore) 1 = [loadingResult] @ ms
     \<and> (\<exists>s'. subscribe batchCfg 0 (fold (fetchNext batchCfg 2) [Some 5, Some 7] waitingStore) = Inr s'
            \<and> received s' 3 = [last ms])"
proof -
  let ?e = "\<lparr> e_key = ''a'', params = ''a'', e_extra = (None :: string option), lastFetchFailed = False,
            clearFromStorageTimer = None, updateValueRS = None, connected = True,
            inner = Some 2, previous = Some loadingResult, replay = Some loadingResult,
            observers = [1], counter = 0 \<rparr>"
  let ?s = "fold (fetchNext batchCfg 2) [Some 5, Some 7] waitingStore"
  have f: "fetches waitingStore 2 = Some \<lparr> f_entry = 0, f_store = Some 0 \<rparr>"
    by (rule waitingStore_facts)
  have h: "heap waitingStore (f_entry \<lparr> f_entry = 0, f_store = Some 0 \<rparr>) = Some ?e"
    by (simp add: waitingStore_entry)
  have ne: "[Some 5, Some (7::int)] \<noteq> [] \<and> connected ?e" by simp
  from fetched_values_pass_through[OF f h, of "[Some 5, Some 7]" batchCfg]
  obtain ms where ms0: "length ms = length [Some 5, Some (7::int)]
     \<and> (\<forall>k<length [Some 5, Some (7::int)]. \<not> loading (ms ! k) \<and> err (ms ! k) = None
            \<and> val (ms ! k) = (if truthy (truthyValue batchCfg) ([Some 5, Some 7] ! k) then [Some 5, Some 7] ! k
                              else if k = 0 then previousValue ?e else [Some 5, Some 7] ! (k - 1)))
     \<and> (\<forall>n \<in> set (observers ?e). received ?s n = received waitingStore n @ ms)
     \<and> ([Some 5, Some (7::int)] \<noteq> [] \<and> connected ?e \<longrightarrow>
          (\<forall>s'. subscribe batchCfg (f_entry \<lparr> f_entry = 0, f_store = Some 0 \<rparr>) ?s = Inr s'
                \<longrightarrow> received s' (nextId waitingStore) = [last ms]))"
    by (elim exE)
  have ms: "length ms = 2"
    "\<forall>k<2. \<not> loading (ms ! k) \<and> err (ms ! k) = None
            \<and> val (ms ! k) = (if truthy (truthyValue batchCfg) ([Some 5, Some 7] ! k) then [Some 5, Some 7] ! k
                              else if k = 0 then previousValue ?e else [Some 5, Some 7] ! (k - 1))"
    "\<forall>n \<in> set [1]. received ?s n = received waitingStore n @ ms"
    "\<forall>s'. subscribe batchCfg 0 ?s = Inr s' \<longrightarrow> received s' (nextId waitingStore) = [last ms]"
    using ms0 ne by simp_all
  have t: "truthy (truthyValue batchCfg) (Some 5)" "truthy (truthyValue batchCfg) (Some 7)"
    by (simp_all add: batchCfg_def batchingConfig_def truthy_def numberTruthy_def)
  have k0: "\<not> loading (ms ! 0) \<and> err (ms ! 0) = None \<and> val (ms ! 0) = Some 5"
    using ms(2)[rule_format, of 0] t by simp
  have k1: "\<not> loading (ms ! 1) \<and> err (ms ! 1) = None \<and> val (ms ! 1) = Some 7"
    using ms(2)[rule_format, of 1] t by simp
  have r: "received ?s 1 = [loadingResult] @ ms"
    using ms(3) waitingStore_facts(4) by simp
  obtain s' where s': "subscribe batchCfg 0 ?s = Inr s'"
    by (cases "subscribe batchCfg 0 ?s")
       (simp_all add: subscribe_def monitored_def batchCfg_def batchingConfig_def Let_def
          split: option.splits)
  with ms(4) have "received s' 3 = [last ms]"
    by (simp add: waitingStore_entry)
  with ms(1) k0 k1 r s' show ?thesis by blast
qed

text \<open>
  Against C3 as stated. The stream of the fetcher produces 0: the subscriber receives a
  result whose value is \<^verbatim>\<open>undefined\<close>. And when the stream has produced 5 and then 7, a
  subscriber that attaches afterwards receives the result for 7 alone.
\<close>

theorem falsy_value_not_passed_through_counterexample:
  "received (fetchNext batchCfg 2 (Some 0) waitingStore) 1
     = [loadingResult, \<lparr> loading = False, val = None, err = None \<rparr>]
   \<and> (case subscribe batchCfg 0 (fold (fetchNext batchCfg 2) [Some 5, Some 7] waitingStore) of
        Inl er \<Rightarrow> []
      | Inr s' \<Rightarrow> received s' 3) = [valueResult 7]"
  by (simp add: waitingStore_def batchCfg_def batchingConfig_def loadingResult_def valueResult_def
        numberTruthy_def store_defs)

text \<open>
  The stream of the fetcher of \<^verbatim>\<open>"a"\<close> fails with the raw error \<^verbatim>\<open>"boom"\<close>, which the parser
  returns as it is: the subscriber receives a result with that error, and after the next
  \<^verbatim>\<open>getStore("a")\<close> a loading result.
\<close>

theorem fetch_failure_becomes_result_witness:
  "\<exists>s'. fetchError batchCfg 2 ''boom'' waitingStore = Inr s'
     \<and> received s' 1 = [loadingResult, \<lparr> loading = False, val = None, err = Some ''boom'' \<rparr>]
     \<and> (\<exists>s''. getStore batchCfg ''a'' False None s' = Inr (0, s'')
            \<and> received s'' 1 = received s' 1 @ [loadingResult])"
proof -
  let ?e = "\<lparr> e_key = ''a'', params = ''a'', e_extra = (None :: string option), lastFetchFailed = False,
            clearFromStorageTimer = None, updateValueRS = None, connected = True,
            inner = Some 2, previous = Some loadingResult, replay = Some loadingResult,
            observers = [1], counter = 0 \<rparr>"
  have f: "fetches waitingStore 2 = Some \<lparr> f_entry = 0, f_store = Some 0 \<rparr>"
    by (rule waitingStore_facts)
  have j: "f_store \<lparr> f_entry = 0, f_store = Some 0 \<rparr> = Some 0" by simp
  have hj: "heap waitingStore 0 = Some ?e" by (rule waitingStore_entry)
  have h: "heap waitingStore (f_entry \<lparr> f_entry = 0, f_store = Some 0 \<rparr>) = Some ?e"
    by (simp add: waitingStore_entry)
  have c: "connected ?e \<and> 0 = f_entry \<lparr> f_entry = 0, f_store = Some 0 \<rparr>
             \<and> map_of (store waitingStore) (paramHasher batchCfg ''a'') = Some 0"
    by (simp add: waitingStore_entry batchCfg_def batchingConfig_def)
  from fetch_failure_becomes_result[OF f j hj h, of batchCfg "''boom''" "''a''" None]
  obtain s' where s0: "fetchError batchCfg 2 ''boom'' waitingStore = Inr s'
     \<and> (\<forall>n \<in> set (observers ?e).
           received s' n = received waitingStore n @
             [\<lparr> loading = False, val = previousValue ?e,
                err = (if truthyError batchCfg (errorParserLogger batchCfg ''boom'')
                       then Some (errorParserLogger batchCfg ''boom'') else None) \<rparr>])
     \<and> (\<exists>e'. heap s' (f_entry \<lparr> f_entry = 0, f_store = Some 0 \<rparr>) = Some e'
            \<and> observers e' = observers ?e \<and> connected e' = connected ?e)
     \<and> (\<exists>ej'. heap s' 0 = Some ej' \<and> lastFetchFailed ej')
     \<and> (connected ?e \<and> 0 = f_entry \<lparr> f_entry = 0, f_store = Some 0 \<rparr>
           \<and> map_of (store waitingStore) (paramHasher batchCfg ''a'') = Some 0 \<longrightarrow>
          (\<exists>s''. getStore batchCfg ''a'' False None s' = Inr (0, s'')
             \<and> (\<forall>n \<in> set (observers ?e).
                   received s'' n = received s' n @ [\<lparr> loading = True, val = None, err = None \<rparr>])))"
    by (elim exE)
  have s1: "fetchError batchCfg 2 ''boom'' waitingStore = Inr s'"
    using s0 by blast
  have s2: "\<forall>n \<in> set (observers ?e).
           received s' n = received waitingStore n @
             [\<lparr> loading = False, val = previousValue ?e,
                err = (if truthyError batchCfg (errorParserLogger batchCfg ''boom'')
                       then Some (errorParserLogger batchCfg ''boom'') else None) \<rparr>]"
    using s0 by blast
  have s3: "\<exists>s''. getStore batchCfg ''a'' False None s' = Inr (0, s'')
             \<and> (\<forall>n \<in> set (observers ?e).
                   received s'' n = received s' n @ [\<lparr> loading = True, val = None, err = None \<rparr>])"
    using s0 c by blast
  have 1: "received s' 1 = [loadingResult, \<lparr> loading = False, val = None, err = Some ''boom'' \<rparr>]"
    using s2 waitingStore_facts(4)
    by (simp add: previousValue_def loadingResult_def batchCfg_def batchingConfig_def stringTruthy_def)
  from s3 obtain s'' where g: "getStore batchCfg ''a'' False None s' = Inr (0, s'')"
    and r: "\<forall>n \<in> set (observers ?e).
              received s'' n = received s' n @ [\<lparr> loading = True, val = None, err = None \<rparr>]"
    by blast
  from r have "received s'' 1 = received s' 1 @ [loadingResult]"
    by (simp add: loadingResult_def)
  with s1 1 g show ?thesis by blast
qed

text \<open>
  Against C2 as stated. The stream fails with an error whose message is the empty string
  and the parser returns the message: the result the subscriber receives carries no
  error.
\<close>

theorem falsy_parsed_error_dropped_counterexample:
  "errorParserLogger batchCfg [] = []
   \<and> (case fetchError batchCfg 2 [] waitingStore of Inl er \<Rightarrow> [] | Inr s' \<Rightarrow> received s' 1)
       = [loadingResult, \<lparr> loading = False, val = None, err = None \<rparr>]"
  by (simp add: waitingStore_def batchCfg_def batchingConfig_def loadingResult_def
        stringTruthy_def store_defs)

text \<open>
  C3. \<^verbatim>\<open>"a"\<close> has one subscriber and its fetcher's stream is live (\<open>waitingStore\<close>). The stream
  produces 5 and then 0: the subscriber receives a result with the value 5 and then a
  second result with the value 5. The fetched 0 is not passed through: \<^verbatim>\<open>||\<close> takes the value
  of the previous element for it.
\<close>

theorem fetched_zero_replaced_by_previous_value:
  "received (fold (fetchNext batchCfg 2) [Some 5, Some 0] waitingStore) 1
     = [loadingResult, valueResult 5, valueResult 5]"
  by (simp add: waitingStore_def batchCfg_def batchingConfig_def loadingResult_def valueResult_def
        numberTruthy_def store_defs)

section \<open>Two executions\<close>

lemmas batching_defs =
  batchingStep_def fetch_def tick_def fetchBatch_def uniqBy_def emptyBatching_def
  batchCfg_def batchingConfig_def

text \<open>
  C7. The keys a, b and c are requested and subscribed to within one window: at the end
  of the window the collective fetch function is called once, with a, b, c. Then the
  only subscriber of b unsubscribes and \<^verbatim>\<open>expireAll()\<close> is called: at the end of the next
  window the collective fetch function is called with a, b and c again. b is fetched
  although nothing is subscribed to it, because \<^verbatim>\<open>shareReplay(1)\<close> keeps the pipeline of b
  subscribed to \<^verbatim>\<open>updateValueRS\<close>.
\<close>

theorem expireAll_refetches_unsubscribed_key:
  "\<exists>b1 b2.
     batchingRun stringTruthy batchCfg emptyBatching
       [Store (GetStore ''a'' False None), Store (Subscribe 0),
        Store (GetStore ''b'' False None), Store (Subscribe 3),
        Store (GetStore ''c'' False None), Store (Subscribe 6), Tick] = Inr b1
   \<and> batchCalls b1 =
       [[\<lparr> request = ''a'', extra = None \<rparr>, \<lparr> request = ''b'', extra = None \<rparr>,
         \<lparr> request = ''c'', extra = None \<rparr>]]
   \<and> subscriptions (rx b1) 4 = Some 3
   \<and> batchingRun stringTruthy batchCfg b1 [Store (Unsubscribe 4), Store ExpireAll, Tick] = Inr b2
   \<and> map_option observers (heap (rx b2) 3) = Some []
   \<and> batchCalls b2 =
       [[\<lparr> request = ''a'', extra = None \<rparr>, \<lparr> request = ''b'', extra = None \<rparr>,
         \<lparr> request = ''c'', extra = None \<rparr>],
        [\<lparr> request = ''a'', extra = None \<rparr>, \<lparr> request = ''b'', extra = None \<rparr>,
         \<lparr> request = ''c'', extra = None \<rparr>]]"
  by (simp add: batching_defs store_defs)

text \<open>
  C9. A store with \<^verbatim>\<open>deleteFromCacheTimeMS = 200\<close>. The stream 0 returned by
  \<^verbatim>\<open>getStore("k")\<close> is subscribed to and unsubscribed from, and the timer (3) deletes the
  entry. \<^verbatim>\<open>getStore("k")\<close> builds a new entry, with the stream 4, which subscriber 5
  subscribes to. A consumer that kept the stream 0 subscribes to it and unsubscribes
  (subscriber 7): the monitor of stream 0 starts a timer (8) on \<^verbatim>\<open>this.store["k"]\<close>, which is
  the new entry. When it runs, the new entry is deleted while subscriber 5 is subscribed
  to its stream.
\<close>

theorem entry_with_subscriber_evicted:
  "\<exists>s s'.
     run ttlCfg emptyStore
       [GetStore ''k'' False None, Subscribe 0, Unsubscribe 1, TimerFire 3,
        GetStore ''k'' False None, Subscribe 4, Subscribe 0, Unsubscribe 7] = Inr s
   \<and> map_of (store s) ''k'' = Some 4
   \<and> map_option observers (heap s 4) = Some [5]
   \<and> subscriptions s 5 = Some 4
   \<and> timers s = [(8, ''k'')]
   \<and> step ttlCfg s (TimerFire 8) = Inr s'
   \<and> map_of (store s') ''k'' = None
   \<and> map_option observers (heap s' 4) = Some [5]
   \<and> subscriptions s' 5 = Some 4"
  by (simp add: ttlCfg_def store_defs)

section \<open>Executions without eviction\<close>




















lemma cancelInner_store [simp]: "store (cancelInner i s) = store s"
  by (simp add: cancelInner_def split: option.splits)



lemma emit_store [simp]: "store (emit cfg i x s) = store s"
  by (simp add: emit_def Let_def split: option.splits)



































































































end
